theory Spec2Isabelle
  imports Main "HOL-Library.Word"
begin

unbundle bit_operations_syntax

section \<open>JavaScript values that reach the stores\<close>

text \<open>
  Chat and user ids arrive as \<open>ctx.chat?.id\<close> and \<open>ctx.from?.id\<close>: an integer, or
  \<open>undefined\<close> when the update carries no chat or sender; the store functions also
  accept a string (\<open>@param {number|string} chatId\<close>). Identifiers, paths, keys and
  environment variables are only concatenated, compared and hashed, so they are kept as
  byte strings (the UTF-8 form that \<open>update(repoPath)\<close> hashes). \<open>String(n)\<close> of an
  integer is its decimal numeral (Telegram ids are far below \<open>10^21\<close>, where JavaScript
  would switch to exponent notation).
\<close>

datatype jsval = Undefined | Num int | Str string

definition digit_char :: "nat \<Rightarrow> char" where
  "digit_char d = ''0123456789'' ! d"

function decimal :: "nat \<Rightarrow> string" where
  "decimal n = (if n < 10 then [digit_char n] else decimal (n div 10) @ [digit_char (n mod 10)])"
  by pat_completeness auto
termination
  by (relation "measure id") auto

declare decimal.simps [simp del]

text \<open>\<open>String(v)\<close>, which is also what a template literal \<open>`${v}`\<close> inserts.\<close>

fun String :: "jsval \<Rightarrow> string" where
  "String Undefined = ''undefined''"
| "String (Num n) = (if n < 0 then CHR ''-'' # decimal (nat (- n)) else decimal (nat n))"
| "String (Str s) = s"

text \<open>The value of \<open>new Date().toISOString()\<close> and the success of \<open>writeFileSync\<close> are
  supplied by the environment at each call.\<close>

record io =
  now :: string
  write_ok :: bool

section \<open>config.js\<close>

text \<open>The fields of \<open>config\<close> that the session and process code reads.
  \<open>anthropicApiKey\<close> is \<open>process.env.ANTHROPIC_API_KEY\<close>: a string or undefined.\<close>

record config =
  anthropicApiKey :: "string option"
  workingDirectory :: string
  claudeModel :: string
  sessionPrefix :: string

section \<open>sessions.js\<close>

record session_entry =
  uuid :: string
  createdAt :: string
  previousUUID :: "string option"

text \<open>
  \<open>sessionMappings\<close> is the in-memory cache, \<open>sessions_json\<close> the content of
  \<open>data/sessions.json\<close> (\<open>None\<close> while the file does not exist). \<open>randomUUID()\<close> is a
  source of values outside the program: \<open>gen i\<close> is the value of its \<open>i\<close>-th call and
  \<open>drawn\<close> counts the calls made so far.
\<close>

record session_store =
  sessionMappings :: "string \<rightharpoonup> session_entry"
  sessions_json :: "(string \<rightharpoonup> session_entry) option"
  drawn :: nat

definition randomUUID :: "(nat \<Rightarrow> string) \<Rightarrow> session_store \<Rightarrow> string \<times> session_store" where
  "randomUUID gen s = (gen (drawn s), s\<lparr>drawn := Suc (drawn s)\<rparr>)"

definition saveSessionMappings :: "io \<Rightarrow> session_store \<Rightarrow> session_store" where
  "saveSessionMappings e s =
     (if write_ok e then s\<lparr>sessions_json := Some (sessionMappings s)\<rparr> else s)"

definition getSessionUUID ::
  "(nat \<Rightarrow> string) \<Rightarrow> io \<Rightarrow> string \<Rightarrow> session_store \<Rightarrow> string \<times> session_store" where
  "getSessionUUID gen e logicalName s =
     (case sessionMappings s logicalName of
        Some entry \<Rightarrow> (uuid entry, s)
      | None \<Rightarrow>
          (let (u, s1) = randomUUID gen s;
               s2 = s1\<lparr>sessionMappings := (sessionMappings s1)
                      (logicalName \<mapsto> \<lparr>uuid = u, createdAt = now e, previousUUID = None\<rparr>)\<rparr>
           in (u, saveSessionMappings e s2)))"

definition resetSession ::
  "(nat \<Rightarrow> string) \<Rightarrow> io \<Rightarrow> string \<Rightarrow> session_store \<Rightarrow> string \<times> session_store" where
  "resetSession gen e logicalName s =
     (let (u, s1) = randomUUID gen s;
          s2 = s1\<lparr>sessionMappings := (sessionMappings s1)
                 (logicalName \<mapsto> \<lparr>uuid = u, createdAt = now e,
                    previousUUID = map_option uuid (sessionMappings s1 logicalName)\<rparr>)\<rparr>
      in (u, saveSessionMappings e s2))"

definition getSessionInfo :: "string \<Rightarrow> session_store \<Rightarrow> session_entry option" where
  "getSessionInfo logicalName s = sessionMappings s logicalName"

text \<open>A sequence of calls on the store, with the handle each call returned.\<close>

datatype session_op = GetSessionUUID string | ResetSession string

fun call_name :: "session_op \<Rightarrow> string" where
  "call_name (GetSessionUUID k) = k"
| "call_name (ResetSession k) = k"

fun session_call ::
  "(nat \<Rightarrow> string) \<Rightarrow> io \<Rightarrow> session_op \<Rightarrow> session_store \<Rightarrow> string \<times> session_store" where
  "session_call gen e (GetSessionUUID k) s = getSessionUUID gen e k s"
| "session_call gen e (ResetSession k) s = resetSession gen e k s"

fun session_calls ::
  "(nat \<Rightarrow> string) \<Rightarrow> (io \<times> session_op) list \<Rightarrow> session_store
     \<Rightarrow> (string \<times> string) list \<times> session_store" where
  "session_calls gen [] s = ([], s)"
| "session_calls gen ((e, c) # cs) s =
     (let (h, s1) = session_call gen e c s;
          (hs, s2) = session_calls gen cs s1
      in ((call_name c, h) # hs, s2))"

text \<open>Every stored handle came out of \<open>randomUUID\<close>.\<close>

definition handles_drawn :: "(nat \<Rightarrow> string) \<Rightarrow> session_store \<Rightarrow> bool" where
  "handles_drawn gen s \<longleftrightarrow>
     (\<forall>k entry. sessionMappings s k = Some entry \<longrightarrow> uuid entry \<in> gen ` {..<drawn s})"

definition empty_sessions :: session_store where
  "empty_sessions = \<lparr>sessionMappings = Map.empty, sessions_json = None, drawn = 0\<rparr>"

section \<open>repos.js\<close>

record repo_entry =
  path :: string
  setAt :: string

record repo_store =
  repoMappings :: "string \<rightharpoonup> repo_entry"
  repos_json :: "(string \<rightharpoonup> repo_entry) option"

text \<open>
  The file system as \<open>statSync\<close> sees it: \<open>Inl message\<close> when the call throws (the path
  does not exist, cannot be read), \<open>Inr d\<close> when it returns stats with
  \<open>isDirectory() = d\<close>. The empty path never names a file.
\<close>

type_synonym filesystem = "string \<Rightarrow> string + bool"

definition statSync :: "filesystem \<Rightarrow> string \<Rightarrow> string + bool" where
  "statSync fs p = (if p = [] then Inl ''ENOENT: no such file or directory, stat'' else fs p)"

definition saveRepoMappings :: "io \<Rightarrow> repo_store \<Rightarrow> repo_store" where
  "saveRepoMappings e s =
     (if write_ok e then s\<lparr>repos_json := Some (repoMappings s)\<rparr> else s)"

text \<open>The result is \<open>Inl message\<close> when \<open>setRepoForChat\<close> throws \<open>new Error(message)\<close>.\<close>

definition setRepoForChat ::
  "filesystem \<Rightarrow> io \<Rightarrow> jsval \<Rightarrow> string \<Rightarrow> repo_store \<Rightarrow> (string + bool) \<times> repo_store" where
  "setRepoForChat fs e chatId repoPath s =
     (case (case statSync fs repoPath of
              Inl message \<Rightarrow> Inl message
            | Inr isDirectory \<Rightarrow>
                if \<not> isDirectory then Inl ''Path is not a directory'' else Inr ()) of
        Inl message \<Rightarrow> (Inl (''Invalid path: '' @ repoPath @ '' - '' @ message), s)
      | Inr _ \<Rightarrow>
          (Inr True,
           saveRepoMappings e
             (s\<lparr>repoMappings := (repoMappings s)
                  (String chatId \<mapsto> \<lparr>path = repoPath, setAt = now e\<rparr>)\<rparr>)))"

definition getRepoForChat :: "jsval \<Rightarrow> string \<Rightarrow> repo_store \<Rightarrow> string" where
  "getRepoForChat chatId defaultPath s =
     (case repoMappings s (String chatId) of
        None \<Rightarrow> defaultPath
      | Some mapping \<Rightarrow> if path mapping \<noteq> [] then path mapping else defaultPath)"

definition removeRepoForChat :: "io \<Rightarrow> jsval \<Rightarrow> repo_store \<Rightarrow> repo_store" where
  "removeRepoForChat e chatId s =
     saveRepoMappings e (s\<lparr>repoMappings := (repoMappings s)(String chatId := None)\<rparr>)"

definition listRepoMappings :: "repo_store \<Rightarrow> (string \<rightharpoonup> repo_entry)" where
  "listRepoMappings s = repoMappings s"

definition getRepoInfo :: "jsval \<Rightarrow> repo_store \<Rightarrow> repo_entry option" where
  "getRepoInfo chatId s = repoMappings s (String chatId)"

subsection \<open>The MD5 digest behind \<open>createHash('md5')\<close> (RFC 1321)\<close>

type_synonym u32 = "32 word"
type_synonym byte = "8 word"
type_synonym md5_state = "u32 \<times> u32 \<times> u32 \<times> u32"

definition md5_shifts :: "nat list" where
  "md5_shifts =
    [7, 12, 17, 22, 7, 12, 17, 22, 7, 12, 17, 22, 7, 12, 17, 22,
     5, 9, 14, 20, 5, 9, 14, 20, 5, 9, 14, 20, 5, 9, 14, 20,
     4, 11, 16, 23, 4, 11, 16, 23, 4, 11, 16, 23, 4, 11, 16, 23,
     6, 10, 15, 21, 6, 10, 15, 21, 6, 10, 15, 21, 6, 10, 15, 21]"

definition md5_sines :: "u32 list" where
  "md5_sines =
    [0xd76aa478, 0xe8c7b756, 0x242070db, 0xc1bdceee,
     0xf57c0faf, 0x4787c62a, 0xa8304613, 0xfd469501,
     0x698098d8, 0x8b44f7af, 0xffff5bb1, 0x895cd7be,
     0x6b901122, 0xfd987193, 0xa679438e, 0x49b40821,
     0xf61e2562, 0xc040b340, 0x265e5a51, 0xe9b6c7aa,
     0xd62f105d, 0x02441453, 0xd8a1e681, 0xe7d3fbc8,
     0x21e1cde6, 0xc33707d6, 0xf4d50d87, 0x455a14ed,
     0xa9e3e905, 0xfcefa3f8, 0x676f02d9, 0x8d2a4c8a,
     0xfffa3942, 0x8771f681, 0x6d9d6122, 0xfde5380c,
     0xa4beea44, 0x4bdecfa9, 0xf6bb4b60, 0xbebfbc70,
     0x289b7ec6, 0xeaa127fa, 0xd4ef3085, 0x04881d05,
     0xd9d4d039, 0xe6db99e5, 0x1fa27cf8, 0xc4ac5665,
     0xf4292244, 0x432aff97, 0xab9423a7, 0xfc93a039,
     0x655b59c3, 0x8f0ccc92, 0xffeff47d, 0x85845dd1,
     0x6fa87e4f, 0xfe2ce6e0, 0xa3014314, 0x4e0811a1,
     0xf7537e82, 0xbd3af235, 0x2ad7d2bb, 0xeb86d391]"

definition rotl32 :: "u32 \<Rightarrow> nat \<Rightarrow> u32" where
  "rotl32 x n = push_bit n x OR drop_bit (32 - n) x"

fun md5_step :: "u32 list \<Rightarrow> md5_state \<Rightarrow> nat \<Rightarrow> md5_state" where
  "md5_step M (a, b, c, d) i =
     (let (f, g) =
        (if i < 16 then ((b AND c) OR (NOT b AND d), i)
         else if i < 32 then ((d AND b) OR (NOT d AND c), (5 * i + 1) mod 16)
         else if i < 48 then (b XOR c XOR d, (3 * i + 5) mod 16)
         else (c XOR (b OR NOT d), (7 * i) mod 16));
        f' = f + a + md5_sines ! i + M ! g
      in (d, b + rotl32 f' (md5_shifts ! i), b, c))"

fun le_word :: "byte list \<Rightarrow> u32" where
  "le_word [] = 0"
| "le_word (x # xs) = ucast x OR push_bit 8 (le_word xs)"

fun words_of :: "nat \<Rightarrow> byte list \<Rightarrow> u32 list" where
  "words_of 0 bs = []"
| "words_of (Suc n) bs = le_word (take 4 bs) # words_of n (drop 4 bs)"

definition md5_block :: "md5_state \<Rightarrow> byte list \<Rightarrow> md5_state" where
  "md5_block st blk =
     (case (st, foldl (md5_step (words_of 16 blk)) st [0..<64]) of
        ((a0, b0, c0, d0), (a, b, c, d)) \<Rightarrow> (a0 + a, b0 + b, c0 + c, d0 + d))"

fun md5_blocks :: "nat \<Rightarrow> md5_state \<Rightarrow> byte list \<Rightarrow> md5_state" where
  "md5_blocks 0 st bs = st"
| "md5_blocks (Suc n) st bs = md5_blocks n (md5_block st (take 64 bs)) (drop 64 bs)"

definition le_bytes :: "nat \<Rightarrow> 'a::len word \<Rightarrow> byte list" where
  "le_bytes n w = map (\<lambda>k. ucast (drop_bit (8 * k) w)) [0..<n]"

definition md5_pad :: "byte list \<Rightarrow> byte list" where
  "md5_pad bs =
     bs @ [0x80] @ replicate ((119 - length bs mod 64) mod 64) 0
        @ le_bytes 8 (8 * (of_nat (length bs) :: 64 word))"

definition md5_init :: md5_state where
  "md5_init = (0x67452301, 0xefcdab89, 0x98badcfe, 0x10325476)"

definition md5 :: "byte list \<Rightarrow> byte list" where
  "md5 bs =
     (let p = md5_pad bs in
      case md5_blocks (length p div 64) md5_init p of
        (a, b, c, d) \<Rightarrow> concat (map (le_bytes 4) [a, b, c, d]))"

definition hex_digit :: "byte \<Rightarrow> char" where
  "hex_digit n = ''0123456789abcdef'' ! unat n"

definition hex_byte :: "byte \<Rightarrow> string" where
  "hex_byte b = [hex_digit (drop_bit 4 b), hex_digit (b AND 0xF)]"

text \<open>\<open>createHash('md5').update(s).digest('hex')\<close>\<close>

definition md5_hex :: "string \<Rightarrow> string" where
  "md5_hex s = concat (map hex_byte (md5 (map of_char s)))"

definition hashRepoPath :: "string \<Rightarrow> string" where
  "hashRepoPath repoPath = take 8 (md5_hex repoPath)"

section \<open>index.js: session names and the per-chat lock\<close>

record ctx =
  from_id :: jsval
  chat_id :: jsval
  chat_type :: "string option"

definition getSessionId :: "config \<Rightarrow> repo_store \<Rightarrow> ctx \<Rightarrow> string" where
  "getSessionId cfg s c =
     (let userId = from_id c;
          chatId = chat_id c;
          repoPath = getRepoForChat chatId (workingDirectory cfg) s;
          repoHash = hashRepoPath repoPath
      in if chat_type c = Some ''private''
         then sessionPrefix cfg @ ''-'' @ String userId @ ''-'' @ repoHash
         else sessionPrefix cfg @ ''-group-'' @ String chatId @ ''-'' @ repoHash)"

text \<open>
  \<open>processingUsers\<close> is a \<open>Set\<close> of lock keys. A message handler tests and adds its key
  without an \<open>await\<close> in between (\<open>tryAcquire\<close>: the \<open>has\<close>/\<open>add\<close> lines), and deletes it
  in its \<open>finally\<close> block (\<open>release\<close>).
\<close>

definition lockKey :: "jsval \<Rightarrow> string" where
  "lockKey chatId = String chatId"

definition tryAcquire :: "string \<Rightarrow> string set \<Rightarrow> bool \<times> string set" where
  "tryAcquire k processingUsers =
     (if k \<in> processingUsers then (False, processingUsers) else (True, insert k processingUsers))"

definition release :: "string \<Rightarrow> string set \<Rightarrow> string set" where
  "release k processingUsers = processingUsers - {k}"

text \<open>
  The bot as a whole: \<open>running\<close> lists the handlers that hold a slot and are suspended in
  their \<open>try\<close> block. A message arrives (\<open>Arrive\<close>) or a suspended handler reaches its
  \<open>finally\<close> (\<open>Settle\<close>).
\<close>

record gate =
  processingUsers :: "string set"
  running :: "string list"

datatype gate_event = Arrive jsval | Settle jsval

fun gate_step :: "gate \<Rightarrow> gate_event \<Rightarrow> gate" where
  "gate_step g (Arrive chatId) =
     (case tryAcquire (lockKey chatId) (processingUsers g) of
        (True, pu) \<Rightarrow> \<lparr>processingUsers = pu, running = lockKey chatId # running g\<rparr>
      | (False, pu) \<Rightarrow> g)"
| "gate_step g (Settle chatId) =
     (if lockKey chatId \<in> set (running g)
      then \<lparr>processingUsers = release (lockKey chatId) (processingUsers g),
            running = remove1 (lockKey chatId) (running g)\<rparr>
      else g)"

definition idle_gate :: gate where
  "idle_gate = \<lparr>processingUsers = {}, running = []\<rparr>"

section \<open>claude.js\<close>

text \<open>
  The output of the child process is inspected one UTF-16 code unit at a time by the
  regular expressions of \<open>cleanClaudeResponse\<close>, so it is a list of code units; \<open>js\<close>
  embeds an ASCII literal.
\<close>

type_synonym code_unit = "16 word"
type_synonym jsstring = "code_unit list"

definition js :: "string \<Rightarrow> jsstring" where
  "js s = map of_char s"

definition ESC :: code_unit where "ESC = 0x1B"
definition LF :: code_unit where "LF = 0x0A"
definition CR :: code_unit where "CR = 0x0D"

subsection \<open>\<open>cleanClaudeResponse\<close>\<close>

text \<open>The character classes \<open>[0-9;]\<close>, \<open>[a-zA-Z]\<close> and the ten spinner glyphs
  (U+280B, U+2819, U+2839, U+2838, U+283C, U+2834, U+2826, U+2827, U+2807, U+280F).\<close>

definition is_csi_param :: "code_unit \<Rightarrow> bool" where
  "is_csi_param c \<longleftrightarrow> (0x30 \<le> c \<and> c \<le> 0x39) \<or> c = 0x3B"

definition is_ascii_letter :: "code_unit \<Rightarrow> bool" where
  "is_ascii_letter c \<longleftrightarrow> (0x61 \<le> c \<and> c \<le> 0x7A) \<or> (0x41 \<le> c \<and> c \<le> 0x5A)"

definition is_spinner :: "code_unit \<Rightarrow> bool" where
  "is_spinner c \<longleftrightarrow>
     c \<in> {0x280B, 0x2819, 0x2839, 0x2838, 0x283C, 0x2834, 0x2826, 0x2827, 0x2807, 0x280F}"

text \<open>ECMAScript's LineTerminator (what \<open>.\<close> does not match and where \<open>^\<close> and \<open>$\<close>
  match under the \<open>m\<close> flag) and what \<open>trim()\<close> removes: WhiteSpace and LineTerminator.\<close>

definition is_line_terminator :: "code_unit \<Rightarrow> bool" where
  "is_line_terminator c \<longleftrightarrow> c \<in> {0x0A, 0x0D, 0x2028, 0x2029}"

definition is_white_space :: "code_unit \<Rightarrow> bool" where
  "is_white_space c \<longleftrightarrow>
     c \<in> {0x09, 0x0B, 0x0C, 0x20, 0xA0, 0x1680, 0x202F, 0x205F, 0x3000, 0xFEFF}
     \<or> (0x2000 \<le> c \<and> c \<le> 0x200A) \<or> is_line_terminator c"

text \<open>\<open>/\x1B\[[0-9;]*[a-zA-Z]/\<close> tried at the head of the input: the rest after the
  match. The two classes are disjoint, so the greedy star never gives a character back.\<close>

fun match_ansi :: "jsstring \<Rightarrow> jsstring option" where
  "match_ansi (e # b # rest) =
     (if e = ESC \<and> b = 0x5B
      then (case dropWhile is_csi_param rest of
              [] \<Rightarrow> None
            | l # after \<Rightarrow> if is_ascii_letter l then Some after else None)
      else None)"
| "match_ansi _ = None"

text \<open>\<open>.replace(/\x1B\[[0-9;]*[a-zA-Z]/g, '')\<close>: a scan from the left; where the
  pattern does not match, one code unit is kept and the scan moves on.\<close>

function strip_ansi :: "jsstring \<Rightarrow> jsstring" where
  "strip_ansi [] = []"
| "strip_ansi (c # cs) =
     (case match_ansi (c # cs) of
        Some after \<Rightarrow> strip_ansi after
      | None \<Rightarrow> c # strip_ansi cs)"
  by pat_completeness auto
termination
proof (relation "measure length")
  show "wf (measure length)" by simp
next
  fix c :: code_unit and cs after
  assume m: "match_ansi (c # cs) = Some after"
  have "length after < length (c # cs)"
  proof (cases cs)
    case Nil
    with m show ?thesis by simp
  next
    case (Cons b rest)
    have "length (dropWhile is_csi_param rest) \<le> length rest"
      by (rule length_dropWhile_le)
    with Cons m show ?thesis
      by (auto split: if_splits list.splits)
  qed
  then show "(after, c # cs) \<in> measure length" by simp
next
  fix c :: code_unit and cs
  show "(cs, c # cs) \<in> measure length" by simp
qed

text \<open>\<open>.replace(/\r/g, '')\<close>\<close>

definition strip_cr :: "jsstring \<Rightarrow> jsstring" where
  "strip_cr s = filter (\<lambda>c. c \<noteq> CR) s"

text \<open>\<open>.replace(/^[...].*$/gm, '')\<close>: \<open>bol\<close> says whether \<open>^\<close> matches here (the start of
  the input, or just after a line terminator). A match takes the glyph and the rest of
  the line and leaves the line terminator in place.\<close>

function strip_spinner_lines :: "bool \<Rightarrow> jsstring \<Rightarrow> jsstring" where
  "strip_spinner_lines bol [] = []"
| "strip_spinner_lines bol (c # cs) =
     (if bol \<and> is_spinner c
      then strip_spinner_lines False (dropWhile (\<lambda>x. \<not> is_line_terminator x) cs)
      else c # strip_spinner_lines (is_line_terminator c) cs)"
  by pat_completeness auto
termination
  by (relation "measure (\<lambda>(bol, s). length s)")
     (auto simp: length_dropWhile_le less_Suc_eq_le)

text \<open>\<open>.replace(/\n{3,}/g, '\n\n')\<close>\<close>

function collapse_newlines :: "jsstring \<Rightarrow> jsstring" where
  "collapse_newlines [] = []"
| "collapse_newlines (c # cs) =
     (if c = LF \<and> 3 \<le> length (takeWhile (\<lambda>x. x = LF) (c # cs))
      then LF # LF # collapse_newlines (dropWhile (\<lambda>x. x = LF) cs)
      else c # collapse_newlines cs)"
  by pat_completeness auto
termination
  by (relation "measure length") (auto simp: length_dropWhile_le less_Suc_eq_le)

text \<open>\<open>.trim()\<close>\<close>

definition trim :: "jsstring \<Rightarrow> jsstring" where
  "trim s = rev (dropWhile is_white_space (rev (dropWhile is_white_space s)))"

definition cleanClaudeResponse :: "jsstring \<Rightarrow> jsstring" where
  "cleanClaudeResponse response =
     trim (collapse_newlines (strip_spinner_lines True (strip_cr (strip_ansi response))))"

subsection \<open>\<open>executeClaudeCode\<close>: the options of \<open>spawn\<close>\<close>

type_synonym environ = "string \<rightharpoonup> string"

text \<open>\<open>const spawnEnv = { ...process.env }; if (config.anthropicApiKey) { ... }\<close>:
  an undefined or empty key is falsy.\<close>

definition spawnEnv :: "config \<Rightarrow> environ \<Rightarrow> environ" where
  "spawnEnv cfg process_env =
     (case anthropicApiKey cfg of
        Some key \<Rightarrow>
          if key \<noteq> [] then process_env(''ANTHROPIC_API_KEY'' \<mapsto> key) else process_env
      | None \<Rightarrow> process_env)"

record spawn_opts =
  cwd :: string
  env :: environ
  shell :: bool

definition spawn_options :: "config \<Rightarrow> environ \<Rightarrow> string option \<Rightarrow> spawn_opts" where
  "spawn_options cfg process_env options_workingDirectory =
     \<lparr>cwd = (case options_workingDirectory of
                Some d \<Rightarrow> if d \<noteq> [] then d else workingDirectory cfg
              | None \<Rightarrow> workingDirectory cfg),
      env = spawnEnv cfg process_env,
      shell = True\<rparr>"

subsection \<open>\<open>executeClaudeCode\<close>: the promise and its event handlers\<close>

text \<open>
  The events of the child process: \<open>'data'\<close> on stdout and on stderr, \<open>'close'\<close> with the
  exit code (\<open>null\<close> when a signal ended the process) and \<open>'error'\<close> with the message of
  the error. A promise settles once: later calls of \<open>resolve\<close> and \<open>reject\<close> do nothing.
  \<open>timer\<close> is the pending \<open>setTimeout\<close>, as the time in milliseconds at which it fires.
\<close>

datatype child_event =
  StdoutData jsstring | StderrData jsstring | Close "int option" | ChildError jsstring

datatype settled = Resolved jsstring | Rejected jsstring

record invocation =
  stdout :: jsstring
  stderr :: jsstring
  promise :: "settled option"
  timer :: "nat option"
  killed :: bool

definition timeout_ms :: nat where
  "timeout_ms = 5 * 60 * 1000"

definition spawned :: invocation where
  "spawned = \<lparr>stdout = [], stderr = [], promise = None, timer = Some timeout_ms, killed = False\<rparr>"

definition resolve :: "jsstring \<Rightarrow> invocation \<Rightarrow> invocation" where
  "resolve v iv = (if promise iv = None then iv\<lparr>promise := Some (Resolved v)\<rparr> else iv)"

definition reject :: "jsstring \<Rightarrow> invocation \<Rightarrow> invocation" where
  "reject message iv =
     (if promise iv = None then iv\<lparr>promise := Some (Rejected message)\<rparr> else iv)"

text \<open>\<open>a || b\<close> on strings: the empty string is falsy.\<close>

definition or_else :: "jsstring \<Rightarrow> jsstring \<Rightarrow> jsstring" where
  "or_else a b = (if a \<noteq> [] then a else b)"

definition clearTimeout :: "invocation \<Rightarrow> invocation" where
  "clearTimeout iv = iv\<lparr>timer := None\<rparr>"

fun deliver :: "child_event \<Rightarrow> invocation \<Rightarrow> invocation" where
  "deliver (StdoutData chunk) iv = iv\<lparr>stdout := stdout iv @ chunk\<rparr>"
| "deliver (StderrData chunk) iv = iv\<lparr>stderr := stderr iv @ chunk\<rparr>"
| "deliver (Close code) iv =
     clearTimeout
       (if code = Some 0
        then resolve (cleanClaudeResponse (stdout iv)) iv
        else reject (js ''Claude Code failed: ''
               @ or_else (stderr iv) (or_else (stdout iv) (js ''Unknown error''))) iv)"
| "deliver (ChildError message) iv = reject (js ''Failed to start Claude Code: '' @ message) iv"

text \<open>The callback of \<open>setTimeout\<close>: \<open>claude.kill('SIGKILL')\<close>, then \<open>reject\<close>.\<close>

definition on_timeout :: "invocation \<Rightarrow> invocation" where
  "on_timeout iv =
     reject (js ''Claude Code timed out after 5 minutes'') (iv\<lparr>killed := True, timer := None\<rparr>)"

text \<open>
  The event loop: events carry the time (milliseconds after \<open>spawn\<close>) at which they are
  delivered; a pending timer whose time has come runs before the event. \<open>state_at T\<close> is
  the invocation as it stands at time \<open>T\<close>.
\<close>

definition fire_due :: "nat \<Rightarrow> invocation \<Rightarrow> invocation" where
  "fire_due t iv =
     (case timer iv of
        Some deadline \<Rightarrow> if deadline \<le> t then on_timeout iv else iv
      | None \<Rightarrow> iv)"

fun run :: "(nat \<times> child_event) list \<Rightarrow> invocation \<Rightarrow> invocation" where
  "run [] iv = iv"
| "run ((t, ev) # evs) iv = run evs (deliver ev (fire_due t iv))"

definition state_at :: "nat \<Rightarrow> (nat \<times> child_event) list \<Rightarrow> invocation" where
  "state_at T evs = fire_due T (run (takeWhile (\<lambda>(t, ev). t \<le> T) evs) spawned)"

fun is_data :: "child_event \<Rightarrow> bool" where
  "is_data (StdoutData chunk) = True"
| "is_data (StderrData chunk) = True"
| "is_data ev = False"

fun stdout_of :: "(nat \<times> child_event) list \<Rightarrow> jsstring" where
  "stdout_of [] = []"
| "stdout_of ((t, StdoutData chunk) # evs) = chunk @ stdout_of evs"
| "stdout_of (ev # evs) = stdout_of evs"

fun stderr_of :: "(nat \<times> child_event) list \<Rightarrow> jsstring" where
  "stderr_of [] = []"
| "stderr_of ((t, StderrData chunk) # evs) = chunk @ stderr_of evs"
| "stderr_of (ev # evs) = stderr_of evs"

subsection \<open>The message handler around \<open>executeClaudeCode\<close>\<close>

text \<open>
  What the text handler does once the awaited promise has settled, as the list of calls
  it makes: the \<open>try\<close> block sends the response, the \<open>catch\<close> block replies with the
  error, the \<open>finally\<close> block stops the typing indicator and deletes the lock key.
  \<open>send_throws\<close> and \<open>reply_throws\<close> are the errors of \<open>sendResponse\<close> and of the
  \<open>ctx.reply\<close> in the \<open>catch\<close> block, when they throw.
\<close>

datatype handler_call =
  SendResponse jsstring | ReplyError jsstring | StopTyping | DeleteLock string

definition error_reply :: "jsstring \<Rightarrow> jsstring" where
  "error_reply message = [0x274C] @ js '' Fehler: '' @ message"

definition after_await ::
  "settled \<Rightarrow> jsstring option \<Rightarrow> jsstring option \<Rightarrow> string \<Rightarrow> handler_call list \<times> jsstring option" where
  "after_await outcome send_throws reply_throws k =
     (let (tried, thrown) =
            (case outcome of
               Rejected message \<Rightarrow> ([], Some message)
             | Resolved response \<Rightarrow> ([SendResponse response], send_throws));
          (caught, escaped) =
            (case thrown of
               None \<Rightarrow> ([], None)
             | Some message \<Rightarrow> ([ReplyError (error_reply message)], reply_throws))
      in (tried @ caught @ [StopTyping, DeleteLock k], escaped))"

fun perform :: "string set \<Rightarrow> handler_call \<Rightarrow> string set" where
  "perform pu (DeleteLock k) = release k pu"
| "perform pu call = pu"

section \<open>Properties of \<open>String\<close>\<close>

definition digit_val :: "char \<Rightarrow> nat" where
  "digit_val c = of_char c - 48"

lemma below_ten: "d < (10::nat) \<Longrightarrow> d \<in> {0, 1, 2, 3, 4, 5, 6, 7, 8, 9}"
  by auto

lemma digit_val_digit_char: "d < 10 \<Longrightarrow> digit_val (digit_char d) = d"
  by (drule below_ten) (auto simp: digit_val_def digit_char_def)

lemma digit_char_not_minus: "d < 10 \<Longrightarrow> digit_char d \<noteq> CHR ''-''"
  by (drule below_ten) (auto simp: digit_char_def)

text \<open>Reading a decimal numeral back gives the number, so \<open>decimal\<close> is injective.\<close>

lemma decimal_value: "foldl (\<lambda>a c. 10 * a + digit_val c) 0 (decimal n) = n"
proof (induction n rule: decimal.induct)
  case (1 n)
  show ?case
  proof (cases "n < 10")
    case True
    then show ?thesis
      by (simp add: decimal.simps [of n] digit_val_digit_char)
  next
    case False
    with 1 have "foldl (\<lambda>a c. 10 * a + digit_val c) 0 (decimal (n div 10)) = n div 10"
      by simp
    with False show ?thesis
      by (simp add: decimal.simps [of n] digit_val_digit_char)
  qed
qed

lemma decimal_inj: "decimal m = decimal n \<Longrightarrow> m = n"
  by (metis decimal_value)

lemma decimal_not_empty: "decimal n \<noteq> []"
  by (simp add: decimal.simps [of n])

lemma hd_decimal_not_minus: "hd (decimal n) \<noteq> CHR ''-''"
proof (induction n rule: decimal.induct)
  case (1 n)
  show ?case
  proof (cases "n < 10")
    case True
    then show ?thesis by (simp add: decimal.simps [of n] digit_char_not_minus)
  next
    case False
    with 1 show ?thesis
      by (simp add: decimal.simps [of n] decimal_not_empty)
  qed
qed

lemma String_Num_inj:
  assumes "String (Num m) = String (Num n)"
  shows "m = n"
proof -
  have mixed: False if "CHR ''-'' # decimal a = decimal b" for a b
    using hd_decimal_not_minus [of b] that [symmetric] by simp
  consider "m < 0" "n < 0" | "m < 0" "\<not> n < 0" | "\<not> m < 0" "n < 0" | "\<not> m < 0" "\<not> n < 0"
    by blast
  then show ?thesis
  proof cases
    case 1
    with assms have "nat (- m) = nat (- n)" by (simp add: decimal_inj)
    with 1 show ?thesis by simp
  next
    case 2
    with assms mixed show ?thesis by simp
  next
    case 3
    with assms mixed [of "nat (- n)" "nat m"] show ?thesis by simp
  next
    case 4
    with assms have "nat m = nat n" by (simp add: decimal_inj)
    with 4 show ?thesis by simp
  qed
qed

lemma String_42: "String (Num 42) = ''42''"
  by (simp add: decimal.simps digit_char_def)

section \<open>The per-chat lock\<close>

lemma lockKey_Num_eq: "lockKey (Num c1) = lockKey (Num c2) \<longleftrightarrow> c1 = c2"
  unfolding lockKey_def using String_Num_inj by blast

definition gate_ok :: "gate \<Rightarrow> bool" where
  "gate_ok g \<longleftrightarrow> distinct (running g) \<and> set (running g) = processingUsers g"

lemma gate_step_ok: "gate_ok g \<Longrightarrow> gate_ok (gate_step g ev)"
proof (cases ev)
  case (Arrive c)
  assume "gate_ok g"
  with Arrive show ?thesis
    by (auto simp: gate_ok_def tryAcquire_def)
next
  case (Settle c)
  assume "gate_ok g"
  with Settle show ?thesis
    by (auto simp: gate_ok_def release_def)
qed

lemma gate_run_ok: "gate_ok g \<Longrightarrow> gate_ok (foldl gate_step g evs)"
  by (induction evs arbitrary: g) (simp_all add: gate_step_ok)

lemma idle_gate_ok: "gate_ok idle_gate"
  by (simp add: gate_ok_def idle_gate_def)

lemma count_list_distinct: "distinct xs \<Longrightarrow> count_list xs x \<le> Suc 0"
  by (induction xs) (auto simp: count_list_0_iff)

text \<open>
  C4. A chat whose key is free acquires the slot, and a second acquire without a release
  is refused; after a release the key can be acquired again; distinct chat ids have
  distinct keys and acquiring one does not change the answer for the other, so from the
  idle state both succeed; a refused request leaves the set as it was (nothing is queued);
  and however messages arrive and handlers finish, no chat has more than one handler
  holding its slot, and the set holds exactly the keys of those handlers.
\<close>

theorem admission_gate:
  "(k \<notin> pu \<longrightarrow>
      tryAcquire k pu = (True, insert k pu) \<and>
      tryAcquire k (snd (tryAcquire k pu)) = (False, insert k pu))
   \<and> fst (tryAcquire k (release k pu'))
   \<and> (c1 \<noteq> c2 \<longrightarrow>
        lockKey (Num c1) \<noteq> lockKey (Num c2) \<and>
        fst (tryAcquire (lockKey (Num c2)) (snd (tryAcquire (lockKey (Num c1)) pu)))
          = fst (tryAcquire (lockKey (Num c2)) pu) \<and>
        fst (tryAcquire (lockKey (Num c1)) {}) \<and>
        fst (tryAcquire (lockKey (Num c2)) (snd (tryAcquire (lockKey (Num c1)) {}))))
   \<and> (\<not> fst (tryAcquire k pu') \<longrightarrow> snd (tryAcquire k pu') = pu')
   \<and> count_list (running (foldl gate_step idle_gate evs)) k \<le> 1
   \<and> set (running (foldl gate_step idle_gate evs)) = processingUsers (foldl gate_step idle_gate evs)"
proof -
  have inv: "gate_ok (foldl gate_step idle_gate evs)"
    by (rule gate_run_ok [OF idle_gate_ok])
  have a: "k \<notin> pu \<longrightarrow>
      tryAcquire k pu = (True, insert k pu) \<and>
      tryAcquire k (snd (tryAcquire k pu)) = (False, insert k pu)"
    by (simp add: tryAcquire_def)
  have b: "fst (tryAcquire k (release k pu'))"
    by (simp add: tryAcquire_def release_def)
  have c: "c1 \<noteq> c2 \<longrightarrow>
        lockKey (Num c1) \<noteq> lockKey (Num c2) \<and>
        fst (tryAcquire (lockKey (Num c2)) (snd (tryAcquire (lockKey (Num c1)) pu)))
          = fst (tryAcquire (lockKey (Num c2)) pu) \<and>
        fst (tryAcquire (lockKey (Num c1)) {}) \<and>
        fst (tryAcquire (lockKey (Num c2)) (snd (tryAcquire (lockKey (Num c1)) {})))"
    by (auto simp: tryAcquire_def lockKey_Num_eq)
  have d: "\<not> fst (tryAcquire k pu') \<longrightarrow> snd (tryAcquire k pu') = pu'"
    by (simp add: tryAcquire_def)
  from inv have e: "count_list (running (foldl gate_step idle_gate evs)) k \<le> 1"
    using count_list_distinct [of "running (foldl gate_step idle_gate evs)" k]
    by (simp add: gate_ok_def)
  from inv have f: "set (running (foldl gate_step idle_gate evs))
      = processingUsers (foldl gate_step idle_gate evs)"
    by (simp add: gate_ok_def)
  from a b c d e f show ?thesis by blast
qed

theorem admission_gate_witness:
  "''42'' \<notin> ({} :: string set)
   \<and> tryAcquire ''42'' {} = (True, {''42''})
   \<and> tryAcquire ''42'' (snd (tryAcquire ''42'' {})) = (False, {''42''})
   \<and> fst (tryAcquire ''42'' (release ''42'' {''42''}))
   \<and> (42 :: int) \<noteq> 7
   \<and> lockKey (Num 42) \<noteq> lockKey (Num 7)
   \<and> fst (tryAcquire (lockKey (Num 42)) {})
   \<and> fst (tryAcquire (lockKey (Num 7)) (snd (tryAcquire (lockKey (Num 42)) {})))
   \<and> \<not> fst (tryAcquire ''42'' {''42''})
   \<and> snd (tryAcquire ''42'' {''42''}) = {''42''}
   \<and> count_list (running (foldl gate_step idle_gate
        [Arrive (Num 42), Arrive (Num 42), Settle (Num 42), Arrive (Num 42)])) ''42'' \<le> 1"
proof -
  have free: "''42'' \<notin> ({} :: string set)" by simp
  have distinct_ids: "(42 :: int) \<noteq> 7" by simp
  have held: "\<not> fst (tryAcquire ''42'' {''42''})" by (simp add: tryAcquire_def)
  note gate = admission_gate [of "''42''" "{}" "{''42''}" 42 7
      "[Arrive (Num 42), Arrive (Num 42), Settle (Num 42), Arrive (Num 42)]"]
  from gate free distinct_ids held show ?thesis by blast
qed

section \<open>Sample data for the instances below\<close>

definition demo_fs :: filesystem where
  "demo_fs p =
     (if p = ''/repo'' \<or> p = ''/other'' then Inr True
      else if p = ''/etc/passwd'' then Inr False
      else Inl ''ENOENT: no such file or directory'')"

definition demo_io :: io where
  "demo_io = \<lparr>now = ''2024-01-01T00:00:00.000Z'', write_ok = True\<rparr>"

definition demo_repos :: repo_store where
  "demo_repos =
     \<lparr>repoMappings = [''42'' \<mapsto> \<lparr>path = ''/repo'', setAt = ''2023-12-31T00:00:00.000Z''\<rparr>],
      repos_json = Some [''42'' \<mapsto> \<lparr>path = ''/repo'', setAt = ''2023-12-31T00:00:00.000Z''\<rparr>]\<rparr>"

definition demo_config :: config where
  "demo_config =
     \<lparr>anthropicApiKey = Some ''sk-ant-demo'', workingDirectory = ''/repo'',
      claudeModel = '''', sessionPrefix = ''telegram''\<rparr>"

definition demo_env :: environ where
  "demo_env = [''PATH'' \<mapsto> ''/usr/bin'', ''ANTHROPIC_API_KEY'' \<mapsto> ''stale'']"

section \<open>The workspace store\<close>

text \<open>
  C7. When \<open>statSync\<close> throws (the path does not exist) or reports something that is not
  a directory (a regular file), \<open>setRepoForChat\<close> throws an error whose message starts
  \<open>Invalid path:\<close>, names the path and gives the reason; the store (the cache and the
  file) is the one it was called with, so the chat's earlier mapping is still what
  \<open>getRepoInfo\<close> and \<open>getRepoForChat\<close> return. It returns \<open>true\<close> exactly for a
  directory.
\<close>

theorem setRepoForChat_invalid_path:
  "(statSync fs p \<noteq> Inr True \<longrightarrow>
      (\<exists>reason. setRepoForChat fs e c p s = (Inl (''Invalid path: '' @ p @ '' - '' @ reason), s))
      \<and> snd (setRepoForChat fs e c p s) = s
      \<and> getRepoInfo c (snd (setRepoForChat fs e c p s)) = getRepoInfo c s
      \<and> getRepoForChat c d (snd (setRepoForChat fs e c p s)) = getRepoForChat c d s)
   \<and> (statSync fs p = Inr False \<longrightarrow>
        fst (setRepoForChat fs e c p s) = Inl (''Invalid path: '' @ p @ '' - Path is not a directory''))
   \<and> (statSync fs p = Inl m \<longrightarrow>
        fst (setRepoForChat fs e c p s) = Inl (''Invalid path: '' @ p @ '' - '' @ m))
   \<and> (fst (setRepoForChat fs e c p s) = Inr True \<longleftrightarrow> statSync fs p = Inr True)"
  by (cases "statSync fs p") (auto simp: setRepoForChat_def)

theorem setRepoForChat_invalid_path_witness:
  "statSync demo_fs ''/etc/passwd'' \<noteq> Inr True
   \<and> statSync demo_fs ''/etc/passwd'' = Inr False
   \<and> statSync demo_fs ''/nowhere'' = Inl ''ENOENT: no such file or directory''
   \<and> setRepoForChat demo_fs demo_io (Num 42) ''/etc/passwd'' demo_repos
        = (Inl ''Invalid path: /etc/passwd - Path is not a directory'', demo_repos)
   \<and> getRepoForChat (Num 42) ''/default'' (snd (setRepoForChat demo_fs demo_io (Num 42) ''/etc/passwd'' demo_repos))
        = ''/repo''
   \<and> fst (setRepoForChat demo_fs demo_io (Num 42) ''/nowhere'' demo_repos)
        = Inl ''Invalid path: /nowhere - ENOENT: no such file or directory''"
proof -
  have regular: "statSync demo_fs ''/etc/passwd'' = Inr False"
    by (simp add: statSync_def demo_fs_def)
  have missing: "statSync demo_fs ''/nowhere'' = Inl ''ENOENT: no such file or directory''"
    by (simp add: statSync_def demo_fs_def)
  have prior: "getRepoForChat (Num 42) ''/default'' demo_repos = ''/repo''"
    by (simp add: getRepoForChat_def demo_repos_def decimal.simps digit_char_def)
  note rejected = setRepoForChat_invalid_path
    [of demo_fs "''/etc/passwd''" demo_io "Num 42" demo_repos "''/default''" "''''"]
  note absent = setRepoForChat_invalid_path
    [of demo_fs "''/nowhere''" demo_io "Num 42" demo_repos "''/default''"
      "''ENOENT: no such file or directory''"]
  from regular rejected have
    "fst (setRepoForChat demo_fs demo_io (Num 42) ''/etc/passwd'' demo_repos)
       = Inl ''Invalid path: /etc/passwd - Path is not a directory''"
    "snd (setRepoForChat demo_fs demo_io (Num 42) ''/etc/passwd'' demo_repos) = demo_repos"
    by simp_all
  moreover from missing absent have
    "fst (setRepoForChat demo_fs demo_io (Num 42) ''/nowhere'' demo_repos)
       = Inl ''Invalid path: /nowhere - ENOENT: no such file or directory''"
    by simp
  ultimately show ?thesis using regular missing prior
    by (simp add: prod_eq_iff)
qed

text \<open>
  C10. Every operation addresses the entry \<open>String(chatId)\<close>, so a chat id and its string
  form are interchangeable in each of them; after \<open>setRepoForChat\<close> with a directory the
  entry under \<open>String(chatId)\<close> is the only key added, a lookup through the string form
  (or, set through the string form, a lookup through the id) returns the path, and a
  removal through the string form deletes the entry.
\<close>

theorem repo_store_keyed_by_String:
  "getRepoForChat (Str (String c)) d s = getRepoForChat c d s
   \<and> getRepoInfo (Str (String c)) s = getRepoInfo c s
   \<and> removeRepoForChat e (Str (String c)) s = removeRepoForChat e c s
   \<and> setRepoForChat fs e (Str (String c)) p s = setRepoForChat fs e c p s
   \<and> (statSync fs p = Inr True \<longrightarrow>
        repoMappings (snd (setRepoForChat fs e c p s)) (String c) = Some \<lparr>path = p, setAt = now e\<rparr>
        \<and> dom (repoMappings (snd (setRepoForChat fs e c p s))) = insert (String c) (dom (repoMappings s))
        \<and> getRepoForChat (Str (String c)) d (snd (setRepoForChat fs e c p s)) = p
        \<and> getRepoForChat c d (snd (setRepoForChat fs e (Str (String c)) p s)) = p
        \<and> getRepoInfo c (removeRepoForChat e' (Str (String c)) (snd (setRepoForChat fs e c p s))) = None
        \<and> getRepoForChat c d (removeRepoForChat e' (Str (String c)) (snd (setRepoForChat fs e c p s))) = d
        \<and> getRepoInfo (Str (String c)) (removeRepoForChat e' c (snd (setRepoForChat fs e (Str (String c)) p s))) = None)"
proof -
  have same_key: "String (Str (String c)) = String c" by simp
  have a: "getRepoForChat (Str (String c)) d s = getRepoForChat c d s" for d s
    by (simp add: getRepoForChat_def)
  have b: "getRepoInfo (Str (String c)) s = getRepoInfo c s" for s
    by (simp add: getRepoInfo_def)
  have r: "removeRepoForChat e (Str (String c)) s = removeRepoForChat e c s" for e s
    by (simp add: removeRepoForChat_def)
  have w: "setRepoForChat fs e (Str (String c)) p s = setRepoForChat fs e c p s"
    unfolding setRepoForChat_def same_key ..
  have valid: "statSync fs p = Inr True \<longrightarrow>
        repoMappings (snd (setRepoForChat fs e c p s)) (String c) = Some \<lparr>path = p, setAt = now e\<rparr>
        \<and> dom (repoMappings (snd (setRepoForChat fs e c p s))) = insert (String c) (dom (repoMappings s))
        \<and> getRepoForChat c d (snd (setRepoForChat fs e c p s)) = p
        \<and> getRepoInfo c (removeRepoForChat e' c (snd (setRepoForChat fs e c p s))) = None
        \<and> getRepoForChat c d (removeRepoForChat e' c (snd (setRepoForChat fs e c p s))) = d"
  proof
    assume ok: "statSync fs p = Inr True"
    then have "p \<noteq> []"
      by (auto simp: statSync_def split: if_splits)
    with ok show "repoMappings (snd (setRepoForChat fs e c p s)) (String c) = Some \<lparr>path = p, setAt = now e\<rparr>
        \<and> dom (repoMappings (snd (setRepoForChat fs e c p s))) = insert (String c) (dom (repoMappings s))
        \<and> getRepoForChat c d (snd (setRepoForChat fs e c p s)) = p
        \<and> getRepoInfo c (removeRepoForChat e' c (snd (setRepoForChat fs e c p s))) = None
        \<and> getRepoForChat c d (removeRepoForChat e' c (snd (setRepoForChat fs e c p s))) = d"
      by (simp add: setRepoForChat_def saveRepoMappings_def getRepoForChat_def
          getRepoInfo_def removeRepoForChat_def)
  qed
  from a b r w valid show ?thesis by simp
qed

theorem repo_store_keyed_by_String_witness:
  "statSync demo_fs ''/other'' = Inr True
   \<and> String (Num 42) = ''42''
   \<and> getRepoForChat (Str ''42'') ''/default'' (snd (setRepoForChat demo_fs demo_io (Num 42) ''/other'' demo_repos)) = ''/other''
   \<and> getRepoForChat (Num 42) ''/default'' (snd (setRepoForChat demo_fs demo_io (Str ''42'') ''/other'' demo_repos)) = ''/other''
   \<and> getRepoInfo (Num 42)
        (removeRepoForChat demo_io (Str ''42'') (snd (setRepoForChat demo_fs demo_io (Num 42) ''/other'' demo_repos))) = None"
proof -
  have valid: "statSync demo_fs ''/other'' = Inr True"
    by (simp add: statSync_def demo_fs_def)
  have key: "String (Num 42) = ''42''"
    by (rule String_42)
  note inst = repo_store_keyed_by_String
    [of "Num 42" "''/default''" demo_repos demo_io demo_fs "''/other''" demo_io]
  from inst [unfolded key] valid key show ?thesis
    by blast
qed

section \<open>The environment of the child process\<close>

text \<open>
  C9. With a credential configured (a non-empty \<open>config.anthropicApiKey\<close>) the
  environment handed to \<open>spawn\<close> is the parent's with \<open>ANTHROPIC_API_KEY\<close> set to it and
  every other variable as in the parent; with none configured (undefined or empty) it is
  the parent's environment unchanged.
\<close>

theorem spawn_env_credential:
  "(anthropicApiKey cfg = Some key \<and> key \<noteq> [] \<longrightarrow>
      env (spawn_options cfg process_env wd) = process_env(''ANTHROPIC_API_KEY'' \<mapsto> key)
      \<and> env (spawn_options cfg process_env wd) ''ANTHROPIC_API_KEY'' = Some key
      \<and> (\<forall>v. v \<noteq> ''ANTHROPIC_API_KEY'' \<longrightarrow> env (spawn_options cfg process_env wd) v = process_env v))
   \<and> (anthropicApiKey cfg' = None \<or> anthropicApiKey cfg' = Some [] \<longrightarrow>
        env (spawn_options cfg' process_env wd) = process_env)"
  by (auto simp: spawn_options_def spawnEnv_def)

theorem spawn_env_credential_witness:
  "anthropicApiKey demo_config = Some ''sk-ant-demo''
   \<and> ''sk-ant-demo'' \<noteq> []
   \<and> env (spawn_options demo_config demo_env None) ''ANTHROPIC_API_KEY'' = Some ''sk-ant-demo''
   \<and> env (spawn_options demo_config demo_env None) ''PATH'' = Some ''/usr/bin''
   \<and> anthropicApiKey (demo_config\<lparr>anthropicApiKey := None\<rparr>) = None
   \<and> env (spawn_options (demo_config\<lparr>anthropicApiKey := None\<rparr>) demo_env None) = demo_env"
proof -
  have configured: "anthropicApiKey demo_config = Some ''sk-ant-demo''"
    by (simp add: demo_config_def)
  have absent: "anthropicApiKey (demo_config\<lparr>anthropicApiKey := None\<rparr>) = None"
    by simp
  have path: "demo_env ''PATH'' = Some ''/usr/bin''"
    by (simp add: demo_env_def)
  note inst = spawn_env_credential
    [of demo_config "''sk-ant-demo''" demo_env None "demo_config\<lparr>anthropicApiKey := None\<rparr>"]
  from inst configured absent path show ?thesis by simp
qed

section \<open>The session store\<close>

lemma getSessionUUID_drawn:
  assumes "handles_drawn gen s" and "getSessionUUID gen e k s = (h, s')"
  shows "handles_drawn gen s' \<and> h \<in> gen ` {..<drawn s'} \<and> drawn s \<le> drawn s'"
proof (cases "sessionMappings s k")
  case None
  with assms(2) have h: "h = gen (drawn s)" and d: "drawn s' = Suc (drawn s)"
    and m: "sessionMappings s' = (sessionMappings s)
        (k \<mapsto> \<lparr>uuid = gen (drawn s), createdAt = now e, previousUUID = None\<rparr>)"
    by (auto simp: getSessionUUID_def randomUUID_def saveSessionMappings_def Let_def split: if_splits)
  from assms(1) have "handles_drawn gen s'"
    unfolding handles_drawn_def d m by (auto simp: lessThan_Suc)
  with h d show ?thesis by simp
next
  case (Some entry)
  with assms show ?thesis
    by (auto simp: getSessionUUID_def handles_drawn_def)
qed

lemma resetSession_drawn:
  assumes "handles_drawn gen s" and "resetSession gen e k s = (h, s')"
  shows "handles_drawn gen s' \<and> h = gen (drawn s) \<and> drawn s' = Suc (drawn s)"
proof -
  from assms(2) have h: "h = gen (drawn s)" and d: "drawn s' = Suc (drawn s)"
    and m: "sessionMappings s' = (sessionMappings s)
        (k \<mapsto> \<lparr>uuid = gen (drawn s), createdAt = now e,
              previousUUID = map_option uuid (sessionMappings s k)\<rparr>)"
    by (auto simp: resetSession_def randomUUID_def saveSessionMappings_def Let_def split: if_splits)
  from assms(1) have "handles_drawn gen s'"
    unfolding handles_drawn_def d m by (auto simp: lessThan_Suc)
  with h d show ?thesis by simp
qed

lemma session_call_drawn:
  assumes "handles_drawn gen s" and "session_call gen e c s = (h, s')"
  shows "handles_drawn gen s' \<and> h \<in> gen ` {..<drawn s'} \<and> drawn s \<le> drawn s'"
proof (cases c)
  case (GetSessionUUID k)
  with assms getSessionUUID_drawn [of gen s e k h s'] show ?thesis by simp
next
  case (ResetSession k)
  with assms resetSession_drawn [of gen s e k h s'] show ?thesis by simp
qed

lemma session_calls_drawn:
  "handles_drawn gen s \<Longrightarrow> session_calls gen cs s = (hs, s') \<Longrightarrow>
     handles_drawn gen s' \<and> snd ` set hs \<subseteq> gen ` {..<drawn s'} \<and> drawn s \<le> drawn s'"
proof (induction cs arbitrary: s hs s')
  case Nil
  then show ?case by simp
next
  case (Cons ec cs)
  obtain e c where ec: "ec = (e, c)" by (cases ec)
  obtain h s1 where first: "session_call gen e c s = (h, s1)"
    by (cases "session_call gen e c s")
  obtain hs1 s2 where rest: "session_calls gen cs s1 = (hs1, s2)"
    by (cases "session_calls gen cs s1")
  from Cons.prems(2) ec first rest have hs: "hs = (call_name c, h) # hs1" and s': "s' = s2"
    by simp_all
  from session_call_drawn [OF Cons.prems(1) first]
  have d1: "handles_drawn gen s1" and h1: "h \<in> gen ` {..<drawn s1}" and le1: "drawn s \<le> drawn s1"
    by simp_all
  from Cons.IH [OF d1 rest]
  have d2: "handles_drawn gen s2" and h2: "snd ` set hs1 \<subseteq> gen ` {..<drawn s2}"
    and le2: "drawn s1 \<le> drawn s2"
    by simp_all
  from h1 le2 have "h \<in> gen ` {..<drawn s2}" by auto
  with d2 h2 le1 le2 show ?case unfolding hs s' by auto
qed

lemma empty_sessions_drawn: "handles_drawn gen empty_sessions"
  by (simp add: handles_drawn_def empty_sessions_def)

lemma fresh_draw: "inj gen \<Longrightarrow> gen (n::nat) \<notin> gen ` {..<n}"
  by (simp add: inj_image_mem_iff)

definition demo_gen :: "nat \<Rightarrow> string" where
  "demo_gen i = ''uuid-'' @ decimal i"

lemma inj_demo_gen: "inj demo_gen"
  by (rule injI) (simp add: demo_gen_def decimal_inj)

definition demo_calls :: "(io \<times> session_op) list" where
  "demo_calls =
     [(demo_io, GetSessionUUID ''telegram-42-6530f9eb''),
      (demo_io, GetSessionUUID ''telegram-42-6530f9eb''),
      (demo_io, ResetSession ''telegram-42-6530f9eb'')]"

lemma demo_calls_issued:
  "fst (session_calls demo_gen demo_calls empty_sessions)
     = [(''telegram-42-6530f9eb'', ''uuid-0''), (''telegram-42-6530f9eb'', ''uuid-0''),
        (''telegram-42-6530f9eb'', ''uuid-1'')]"
  by (simp add: demo_calls_def empty_sessions_def demo_io_def demo_gen_def getSessionUUID_def
      resetSession_def randomUUID_def saveSessionMappings_def decimal.simps digit_char_def)

lemma demo_calls_store:
  "sessionMappings (snd (session_calls demo_gen demo_calls empty_sessions)) ''telegram-42-6530f9eb''
     = Some \<lparr>uuid = ''uuid-1'', createdAt = ''2024-01-01T00:00:00.000Z'', previousUUID = Some ''uuid-0''\<rparr>
   \<and> drawn (snd (session_calls demo_gen demo_calls empty_sessions)) = 2"
  by (simp add: demo_calls_def empty_sessions_def demo_io_def demo_gen_def getSessionUUID_def
      resetSession_def randomUUID_def saveSessionMappings_def decimal.simps digit_char_def)

text \<open>
  C3. A second \<open>getSessionUUID\<close> for the same name returns the handle of the first and
  changes nothing. \<open>resetSession\<close> stores a new entry whose \<open>previousUUID\<close> is the handle
  that was current (absent when there was none) and whose handle is what
  \<open>getSessionUUID\<close> returns from then on. Provided \<open>randomUUID\<close> never returns the same
  value twice (\<open>inj gen\<close>), the handle returned by \<open>resetSession\<close> differs from the current
  handle, and, after any sequence of calls from the empty store, from every handle
  those calls returned, for this and for any other name.
\<close>

theorem session_handles:
  "fst (getSessionUUID gen e2 k (snd (getSessionUUID gen e1 k s))) = fst (getSessionUUID gen e1 k s)
   \<and> snd (getSessionUUID gen e2 k (snd (getSessionUUID gen e1 k s))) = snd (getSessionUUID gen e1 k s)
   \<and> sessionMappings (snd (resetSession gen e k s)) k
        = Some \<lparr>uuid = fst (resetSession gen e k s), createdAt = now e,
                previousUUID = map_option uuid (sessionMappings s k)\<rparr>
   \<and> fst (getSessionUUID gen e2 k (snd (resetSession gen e k s))) = fst (resetSession gen e k s)
   \<and> (inj gen \<and> handles_drawn gen s \<longrightarrow>
        (\<forall>entry. sessionMappings s k = Some entry \<longrightarrow> fst (resetSession gen e k s) \<noteq> uuid entry))
   \<and> (inj gen \<and> session_calls gen calls empty_sessions = (issued, s') \<longrightarrow>
        fst (resetSession gen e k s') \<notin> snd ` set issued
        \<and> (\<forall>entry. sessionMappings s' k = Some entry \<longrightarrow> fst (resetSession gen e k s') \<noteq> uuid entry))"
proof -
  have twice: "fst (getSessionUUID gen e2 k (snd (getSessionUUID gen e1 k s))) = fst (getSessionUUID gen e1 k s)
     \<and> snd (getSessionUUID gen e2 k (snd (getSessionUUID gen e1 k s))) = snd (getSessionUUID gen e1 k s)"
    by (cases "sessionMappings s k")
       (simp_all add: getSessionUUID_def randomUUID_def saveSessionMappings_def Let_def)
  have moved: "sessionMappings (snd (resetSession gen e k s)) k
        = Some \<lparr>uuid = fst (resetSession gen e k s), createdAt = now e,
                previousUUID = map_option uuid (sessionMappings s k)\<rparr>"
    by (simp add: resetSession_def randomUUID_def saveSessionMappings_def Let_def)
  then have current: "fst (getSessionUUID gen e2 k (snd (resetSession gen e k s))) = fst (resetSession gen e k s)"
    by (simp add: getSessionUUID_def)
  have fresh: "fst (resetSession gen e k t) \<noteq> uuid entry"
    if "inj gen" "handles_drawn gen t" "sessionMappings t k' = Some entry" for t k' entry
  proof -
    from that(2,3) have "uuid entry \<in> gen ` {..<drawn t}"
      by (auto simp: handles_drawn_def)
    moreover have "fst (resetSession gen e k t) = gen (drawn t)"
      by (simp add: resetSession_def randomUUID_def Let_def)
    ultimately show ?thesis using fresh_draw [OF that(1), of "drawn t"] by auto
  qed
  have trace: "fst (resetSession gen e k s') \<notin> snd ` set issued
        \<and> (\<forall>entry. sessionMappings s' k = Some entry \<longrightarrow> fst (resetSession gen e k s') \<noteq> uuid entry)"
    if "inj gen" "session_calls gen calls empty_sessions = (issued, s')"
  proof -
    from session_calls_drawn [OF empty_sessions_drawn that(2)]
    have d: "handles_drawn gen s'" and sub: "snd ` set issued \<subseteq> gen ` {..<drawn s'}"
      by simp_all
    have "fst (resetSession gen e k s') = gen (drawn s')"
      by (simp add: resetSession_def randomUUID_def Let_def)
    with fresh_draw [OF that(1), of "drawn s'"] sub
    have "fst (resetSession gen e k s') \<notin> snd ` set issued" by auto
    with fresh [OF that(1) d] show ?thesis by blast
  qed
  from twice moved current fresh trace show ?thesis by blast
qed

theorem session_handles_witness:
  "inj demo_gen
   \<and> handles_drawn demo_gen (snd (session_calls demo_gen demo_calls empty_sessions))
   \<and> fst (session_calls demo_gen demo_calls empty_sessions)
       = [(''telegram-42-6530f9eb'', ''uuid-0''), (''telegram-42-6530f9eb'', ''uuid-0''),
          (''telegram-42-6530f9eb'', ''uuid-1'')]
   \<and> fst (resetSession demo_gen demo_io ''telegram-42-6530f9eb''
            (snd (session_calls demo_gen demo_calls empty_sessions))) = ''uuid-2''
   \<and> fst (resetSession demo_gen demo_io ''telegram-42-6530f9eb''
            (snd (session_calls demo_gen demo_calls empty_sessions)))
        \<notin> snd ` set (fst (session_calls demo_gen demo_calls empty_sessions))
   \<and> sessionMappings (snd (resetSession demo_gen demo_io ''telegram-42-6530f9eb''
            (snd (session_calls demo_gen demo_calls empty_sessions)))) ''telegram-42-6530f9eb''
       = Some \<lparr>uuid = ''uuid-2'', createdAt = ''2024-01-01T00:00:00.000Z'',
               previousUUID = Some ''uuid-1''\<rparr>"
proof -
  let ?k = "''telegram-42-6530f9eb''"
  let ?run = "session_calls demo_gen demo_calls empty_sessions"
  have run: "?run = (fst ?run, snd ?run)" by simp
  have drawn: "handles_drawn demo_gen (snd ?run)"
    using session_calls_drawn [OF empty_sessions_drawn run] by simp
  have new: "fst (resetSession demo_gen demo_io ?k (snd ?run)) = ''uuid-2''"
    using demo_calls_store
    by (simp add: resetSession_def randomUUID_def demo_gen_def decimal.simps digit_char_def
        Let_def)
  have "now demo_io = ''2024-01-01T00:00:00.000Z''"
    by (simp add: demo_io_def)
  note inst = session_handles [of demo_gen demo_io ?k demo_io "snd ?run" demo_io demo_calls
      "fst ?run" "snd ?run"]
  from inst inj_demo_gen drawn run demo_calls_issued demo_calls_store new
    \<open>now demo_io = ''2024-01-01T00:00:00.000Z''\<close>
  show ?thesis by simp
qed

section \<open>The workspace fingerprint\<close>

text \<open>The digest is 16 bytes, so its hex form has 32 characters and the fingerprint 8,
  all of them hex digits.\<close>

lemma length_concat_hex: "length (concat (map hex_byte bs)) = 2 * length bs"
  by (induction bs) (simp_all add: hex_byte_def)

lemma length_md5: "length (md5 bs) = 16"
  by (simp add: md5_def Let_def le_bytes_def split: prod.splits)

lemma length_md5_hex: "length (md5_hex s) = 32"
  by (simp add: md5_hex_def length_concat_hex length_md5)

lemma length_hashRepoPath: "length (hashRepoPath p) = 8"
  by (simp add: hashRepoPath_def length_md5_hex)

lemma high_nibble: "unat (drop_bit 4 (b :: byte)) < 16"
proof -
  have "unat b < 2 ^ 8" using unsigned_less [of b] by simp
  moreover have "unat (drop_bit 4 b) = drop_bit 4 (unat b)"
    by (rule unat_drop_bit_eq)
  moreover have "drop_bit 4 (unat b) = unat b div 2 ^ 4"
    by (rule drop_bit_eq_div)
  ultimately show ?thesis by simp
qed

lemma low_nibble: "unat ((b :: byte) AND 0xF) < 16"
proof -
  have "unat (b AND 0xF) \<le> unat (0xF :: byte)"
    by (rule word_and_le1 [THEN word_le_nat_alt [THEN iffD1]])
  then show ?thesis by simp
qed

lemma hex_digit_in: "unat n < 16 \<Longrightarrow> hex_digit n \<in> set ''0123456789abcdef''"
  unfolding hex_digit_def by (rule nth_mem) simp

lemma set_hex_byte: "set (hex_byte b) \<subseteq> set ''0123456789abcdef''"
  using hex_digit_in [OF high_nibble [of b]] hex_digit_in [OF low_nibble [of b]]
  by (simp add: hex_byte_def)

lemma set_md5_hex: "set (md5_hex s) \<subseteq> set ''0123456789abcdef''"
  unfolding md5_hex_def using set_hex_byte by (auto simp del: set_simps)

lemma set_hashRepoPath: "set (hashRepoPath p) \<subseteq> set ''0123456789abcdef''"
  unfolding hashRepoPath_def using set_md5_hex [of p] set_take_subset [of 8 "md5_hex p"]
  by (rule_tac subset_trans)

text \<open>The model of MD5 on a test vector of RFC 1321, and the fingerprints used below.\<close>

lemma md5_hex_abc: "md5_hex ''abc'' = ''900150983cd24fb0d6963f7d28e17f72''"
  by code_simp

lemma fingerprint_repo: "hashRepoPath ''/repo'' = ''6530f9eb''"
  by code_simp

lemma fingerprint_other: "hashRepoPath ''/other'' = ''24769c55''"
  by code_simp

lemma fingerprint_20671: "hashRepoPath ''/repo/20671'' = ''bc09e7c3''"
  by code_simp

lemma fingerprint_59022: "hashRepoPath ''/repo/59022'' = ''bc09e7c3''"
  by code_simp

section \<open>Session names\<close>

definition empty_repos :: repo_store where
  "empty_repos = \<lparr>repoMappings = Map.empty, repos_json = None\<rparr>"

definition chat_42 :: ctx where
  "chat_42 = \<lparr>from_id = Num 42, chat_id = Num 42, chat_type = Some ''private''\<rparr>"

definition every_dir :: filesystem where
  "every_dir p = Inr True"

lemma getRepoForChat_set:
  "statSync fs p = Inr True \<Longrightarrow>
     getRepoForChat c d (snd (setRepoForChat fs e c p s)) = p"
  by (auto simp: setRepoForChat_def saveRepoMappings_def getRepoForChat_def statSync_def
      split: if_splits)

lemma getRepoForChat_remove:
  "getRepoForChat c d (removeRepoForChat e c s) = d"
  by (simp add: removeRepoForChat_def saveRepoMappings_def getRepoForChat_def)

lemma getSessionId_eq_iff:
  "getSessionId cfg s1 c = getSessionId cfg s2 c \<longleftrightarrow>
     hashRepoPath (getRepoForChat (chat_id c) (workingDirectory cfg) s1)
       = hashRepoPath (getRepoForChat (chat_id c) (workingDirectory cfg) s2)"
  by (simp add: getSessionId_def Let_def)

definition group_chat :: ctx where
  "group_chat = \<lparr>from_id = Num 7, chat_id = Num (- 1001234), chat_type = Some ''supergroup''\<rparr>"

lemma demo_default_repo:
  "getRepoForChat c (workingDirectory demo_config) empty_repos = ''/repo''"
  by (simp add: getRepoForChat_def empty_repos_def demo_config_def)

text \<open>
  C1, as the claim states it, fails: the session name holds only the first eight hex
  digits of the MD5 digest of the workspace path, and two different paths can share
  them. Chat 42 with workspace \<open>/repo/20671\<close> and with workspace \<open>/repo/59022\<close> gets the
  same session name.
\<close>

theorem session_key_collision:
  "''/repo/20671'' \<noteq> ''/repo/59022''
   \<and> getRepoForChat (chat_id chat_42) (workingDirectory demo_config)
         (snd (setRepoForChat every_dir demo_io (Num 42) ''/repo/20671'' empty_repos)) = ''/repo/20671''
   \<and> getRepoForChat (chat_id chat_42) (workingDirectory demo_config)
         (snd (setRepoForChat every_dir demo_io (Num 42) ''/repo/59022'' empty_repos)) = ''/repo/59022''
   \<and> getSessionId demo_config
         (snd (setRepoForChat every_dir demo_io (Num 42) ''/repo/20671'' empty_repos)) chat_42
     = getSessionId demo_config
         (snd (setRepoForChat every_dir demo_io (Num 42) ''/repo/59022'' empty_repos)) chat_42"
proof -
  have a: "statSync every_dir ''/repo/20671'' = Inr True"
    and b: "statSync every_dir ''/repo/59022'' = Inr True"
    by (simp_all add: statSync_def every_dir_def)
  have c: "chat_id chat_42 = Num 42" by (simp add: chat_42_def)
  show ?thesis
    unfolding getSessionId_eq_iff c getRepoForChat_set [OF a] getRepoForChat_set [OF b]
      fingerprint_20671 fingerprint_59022
    by simp
qed

text \<open>
  C1, amended. The session name is a function of the chat, the prefix and the resolved
  workspace path alone: two stores (and configurations) that resolve the chat to the same
  path, with the same prefix, give the same name. For one chat, two stores give
  different names exactly when the fingerprints of their resolved paths differ; so
  setting another directory changes the name whenever its fingerprint differs from the
  old one. Setting the earlier directory again gives the earlier name again, and
  removing the mapping of a chat that had none before it was set gives the name it had
  before.
\<close>

theorem session_key_derivation:
  "(getRepoForChat (chat_id c) (workingDirectory cfg) s
      = getRepoForChat (chat_id c) (workingDirectory cfg') s'
    \<and> sessionPrefix cfg = sessionPrefix cfg' \<longrightarrow>
      getSessionId cfg s c = getSessionId cfg' s' c)
   \<and> (getSessionId cfg s1 c = getSessionId cfg s2 c \<longleftrightarrow>
        hashRepoPath (getRepoForChat (chat_id c) (workingDirectory cfg) s1)
          = hashRepoPath (getRepoForChat (chat_id c) (workingDirectory cfg) s2))
   \<and> (statSync fs p = Inr True \<and> statSync fs q = Inr True \<longrightarrow>
        (getSessionId cfg (snd (setRepoForChat fs e1 (chat_id c) p s)) c
           \<noteq> getSessionId cfg (snd (setRepoForChat fs e2 (chat_id c) q s)) c
         \<longleftrightarrow> hashRepoPath p \<noteq> hashRepoPath q)
        \<and> getSessionId cfg
            (snd (setRepoForChat fs e3 (chat_id c) p
              (snd (setRepoForChat fs e2 (chat_id c) q
                (snd (setRepoForChat fs e1 (chat_id c) p s)))))) c
          = getSessionId cfg (snd (setRepoForChat fs e1 (chat_id c) p s)) c
        \<and> (getRepoInfo (chat_id c) s = None \<longrightarrow>
             getSessionId cfg (removeRepoForChat e2 (chat_id c) (snd (setRepoForChat fs e1 (chat_id c) q s))) c
               = getSessionId cfg s c))"
proof -
  have frame: "getSessionId cfg s c = getSessionId cfg' s' c"
    if "getRepoForChat (chat_id c) (workingDirectory cfg) s
          = getRepoForChat (chat_id c) (workingDirectory cfg') s'"
      and "sessionPrefix cfg = sessionPrefix cfg'"
    using that by (simp add: getSessionId_def Let_def)
  have unset: "getRepoForChat (chat_id c) (workingDirectory cfg) s = workingDirectory cfg"
    if "getRepoInfo (chat_id c) s = None"
    using that by (simp add: getRepoInfo_def getRepoForChat_def)
  have paths: "(getSessionId cfg (snd (setRepoForChat fs e1 (chat_id c) p s)) c
           \<noteq> getSessionId cfg (snd (setRepoForChat fs e2 (chat_id c) q s)) c
         \<longleftrightarrow> hashRepoPath p \<noteq> hashRepoPath q)
        \<and> getSessionId cfg
            (snd (setRepoForChat fs e3 (chat_id c) p
              (snd (setRepoForChat fs e2 (chat_id c) q
                (snd (setRepoForChat fs e1 (chat_id c) p s)))))) c
          = getSessionId cfg (snd (setRepoForChat fs e1 (chat_id c) p s)) c
        \<and> (getRepoInfo (chat_id c) s = None \<longrightarrow>
             getSessionId cfg (removeRepoForChat e2 (chat_id c) (snd (setRepoForChat fs e1 (chat_id c) q s))) c
               = getSessionId cfg s c)"
    if p: "statSync fs p = Inr True" and q: "statSync fs q = Inr True"
    unfolding getSessionId_eq_iff getRepoForChat_set [OF p] getRepoForChat_set [OF q]
      getRepoForChat_remove
    using unset by simp
  from frame getSessionId_eq_iff [of cfg s1 c s2] paths show ?thesis
    by blast
qed

theorem session_key_derivation_witness:
  "statSync demo_fs ''/repo'' = Inr True
   \<and> statSync demo_fs ''/other'' = Inr True
   \<and> getRepoInfo (chat_id chat_42) empty_repos = None
   \<and> hashRepoPath ''/repo'' \<noteq> hashRepoPath ''/other''
   \<and> getSessionId demo_config (snd (setRepoForChat demo_fs demo_io (chat_id chat_42) ''/repo'' empty_repos)) chat_42
       \<noteq> getSessionId demo_config (snd (setRepoForChat demo_fs demo_io (chat_id chat_42) ''/other'' empty_repos)) chat_42
   \<and> getSessionId demo_config
        (snd (setRepoForChat demo_fs demo_io (chat_id chat_42) ''/repo''
          (snd (setRepoForChat demo_fs demo_io (chat_id chat_42) ''/other''
            (snd (setRepoForChat demo_fs demo_io (chat_id chat_42) ''/repo'' empty_repos)))))) chat_42
       = getSessionId demo_config (snd (setRepoForChat demo_fs demo_io (chat_id chat_42) ''/repo'' empty_repos)) chat_42
   \<and> getSessionId demo_config
        (removeRepoForChat demo_io (chat_id chat_42)
          (snd (setRepoForChat demo_fs demo_io (chat_id chat_42) ''/other'' empty_repos))) chat_42
       = getSessionId demo_config empty_repos chat_42
   \<and> getSessionId demo_config empty_repos chat_42
       = getSessionId demo_config (snd (setRepoForChat demo_fs demo_io (chat_id chat_42) ''/repo'' empty_repos)) chat_42"
proof -
  have p: "statSync demo_fs ''/repo'' = Inr True"
    and q: "statSync demo_fs ''/other'' = Inr True"
    by (simp_all add: statSync_def demo_fs_def)
  have unset: "getRepoInfo (chat_id chat_42) empty_repos = None"
    by (simp add: getRepoInfo_def empty_repos_def)
  have differ: "hashRepoPath ''/repo'' \<noteq> hashRepoPath ''/other''"
    unfolding fingerprint_repo fingerprint_other by simp
  have same: "getRepoForChat (chat_id chat_42) (workingDirectory demo_config) empty_repos
      = getRepoForChat (chat_id chat_42) (workingDirectory demo_config)
          (snd (setRepoForChat demo_fs demo_io (chat_id chat_42) ''/repo'' empty_repos))"
    unfolding demo_default_repo getRepoForChat_set [OF p] ..
  note inst = session_key_derivation [of chat_42 demo_config empty_repos demo_config
      "snd (setRepoForChat demo_fs demo_io (chat_id chat_42) ''/repo'' empty_repos)"
      empty_repos empty_repos demo_fs "''/repo''" "''/other''" demo_io demo_io demo_io]
  from inst p q unset differ same show ?thesis by blast
qed

text \<open>
  C2. In a private chat the session name is \<open>prefix-id-fingerprint\<close>, where the id is the
  sender's (\<open>ctx.from.id\<close>), which in a private chat is the chat's id; in every other chat
  it is \<open>prefix-group-id-fingerprint\<close> with the chat's id. The fingerprint is the first 8
  characters of the hex MD5 digest of the resolved workspace path: always 8 hex digits.
  Chat 42 with no workspace set and default workspace \<open>/repo\<close> has the name
  \<open>telegram-42-\<close> followed by the fingerprint of \<open>/repo\<close>.
\<close>

theorem session_key_form:
  "(chat_type c = Some ''private'' \<longrightarrow>
      getSessionId cfg s c
        = sessionPrefix cfg @ ''-'' @ String (from_id c) @ ''-''
            @ hashRepoPath (getRepoForChat (chat_id c) (workingDirectory cfg) s))
   \<and> (chat_type c = Some ''private'' \<and> from_id c = chat_id c \<longrightarrow>
        getSessionId cfg s c
          = sessionPrefix cfg @ ''-'' @ String (chat_id c) @ ''-''
              @ hashRepoPath (getRepoForChat (chat_id c) (workingDirectory cfg) s))
   \<and> (chat_type g \<noteq> Some ''private'' \<longrightarrow>
        getSessionId cfg s g
          = sessionPrefix cfg @ ''-group-'' @ String (chat_id g) @ ''-''
              @ hashRepoPath (getRepoForChat (chat_id g) (workingDirectory cfg) s))
   \<and> hashRepoPath p = take 8 (md5_hex p)
   \<and> length (hashRepoPath p) = 8
   \<and> set (hashRepoPath p) \<subseteq> set ''0123456789abcdef''
   \<and> getSessionId demo_config empty_repos chat_42 = ''telegram-42-'' @ hashRepoPath ''/repo''"
proof -
  have priv: "getSessionId cfg s c
        = sessionPrefix cfg @ ''-'' @ String (from_id c) @ ''-''
            @ hashRepoPath (getRepoForChat (chat_id c) (workingDirectory cfg) s)"
    if "chat_type c = Some ''private''"
    using that by (simp add: getSessionId_def Let_def)
  have grp: "getSessionId cfg s g
          = sessionPrefix cfg @ ''-group-'' @ String (chat_id g) @ ''-''
              @ hashRepoPath (getRepoForChat (chat_id g) (workingDirectory cfg) s)"
    if "chat_type g \<noteq> Some ''private''"
    using that by (simp add: getSessionId_def Let_def)
  have "chat_type chat_42 = Some ''private''" "from_id chat_42 = Num 42"
    "sessionPrefix demo_config = ''telegram''"
    by (simp_all add: chat_42_def demo_config_def)
  then have example: "getSessionId demo_config empty_repos chat_42 = ''telegram-42-'' @ hashRepoPath ''/repo''"
    by (simp add: getSessionId_def Let_def demo_default_repo String_42 del: String.simps)
  have digest: "hashRepoPath p = take 8 (md5_hex p)"
    by (simp add: hashRepoPath_def)
  from priv grp example digest length_hashRepoPath [of p] set_hashRepoPath [of p]
  show ?thesis by metis
qed

theorem session_key_form_witness:
  "chat_type chat_42 = Some ''private''
   \<and> from_id chat_42 = chat_id chat_42
   \<and> chat_type group_chat \<noteq> Some ''private''
   \<and> getSessionId demo_config empty_repos chat_42 = ''telegram-42-6530f9eb''
   \<and> getSessionId demo_config empty_repos group_chat = ''telegram-group--1001234-6530f9eb''
   \<and> length (hashRepoPath ''/repo'') = 8"
proof -
  have priv: "chat_type chat_42 = Some ''private''" "from_id chat_42 = chat_id chat_42"
    by (simp_all add: chat_42_def)
  have grp: "chat_type group_chat \<noteq> Some ''private''"
    by (simp add: group_chat_def)
  have id: "String (chat_id group_chat) = ''-1001234''"
    by (simp add: group_chat_def decimal.simps digit_char_def)
  have prefix: "sessionPrefix demo_config = ''telegram''"
    by (simp add: demo_config_def)
  note inst = session_key_form [of chat_42 demo_config empty_repos group_chat "''/repo''"]
  from inst have k1: "getSessionId demo_config empty_repos chat_42 = ''telegram-42-'' @ hashRepoPath ''/repo''"
    by blast
  from inst grp have k2: "getSessionId demo_config empty_repos group_chat
      = sessionPrefix demo_config @ ''-group-'' @ String (chat_id group_chat) @ ''-''
          @ hashRepoPath (getRepoForChat (chat_id group_chat) (workingDirectory demo_config) empty_repos)"
    by blast
  from inst have k3: "length (hashRepoPath ''/repo'') = 8"
    by blast
  from k1 have "getSessionId demo_config empty_repos chat_42 = ''telegram-42-6530f9eb''"
    unfolding fingerprint_repo by simp
  moreover from k2 have "getSessionId demo_config empty_repos group_chat = ''telegram-group--1001234-6530f9eb''"
    unfolding id prefix demo_default_repo fingerprint_repo by simp
  ultimately show ?thesis using priv grp k3 by blast
qed

section \<open>The child process\<close>

text \<open>While only data arrives and the timer has not fired, the buffers grow and nothing
  else changes.\<close>

lemma fire_due_early: "timer iv = Some d \<Longrightarrow> t < d \<Longrightarrow> fire_due t iv = iv"
  by (simp add: fire_due_def)

lemma fire_due_cleared: "timer iv = None \<Longrightarrow> fire_due t iv = iv"
  by (simp add: fire_due_def)

lemma run_append: "run (evs @ evs') iv = run evs' (run evs iv)"
  by (induction evs arbitrary: iv) auto

lemma run_data_early:
  "\<forall>(t, ev) \<in> set evs. is_data ev \<and> t < d \<Longrightarrow> timer iv = Some d \<Longrightarrow>
     run evs iv = iv\<lparr>stdout := stdout iv @ stdout_of evs, stderr := stderr iv @ stderr_of evs\<rparr>"
proof (induction evs arbitrary: iv)
  case Nil
  then show ?case by simp
next
  case (Cons tev evs)
  obtain t ev where tev: "tev = (t, ev)" by (cases tev)
  with Cons.prems have early: "t < d" and data: "is_data ev"
    and rest: "\<forall>(t, ev) \<in> set evs. is_data ev \<and> t < d"
    by auto
  from early Cons.prems(2) have quiet: "fire_due t iv = iv"
    by (rule fire_due_early [rotated])
  from data show ?case
  proof (cases ev)
    case (StdoutData chunk)
    with tev quiet Cons.IH [OF rest, of "iv\<lparr>stdout := stdout iv @ chunk\<rparr>"] Cons.prems(2)
    show ?thesis by simp
  next
    case (StderrData chunk)
    with tev quiet Cons.IH [OF rest, of "iv\<lparr>stderr := stderr iv @ chunk\<rparr>"] Cons.prems(2)
    show ?thesis by simp
  qed simp_all
qed

lemma run_data_spawned:
  assumes "\<forall>(t, ev) \<in> set evs. is_data ev \<and> t < timeout_ms"
  shows "run evs spawned = spawned\<lparr>stdout := stdout_of evs, stderr := stderr_of evs\<rparr>"
  using run_data_early [OF assms, of spawned] by (simp add: spawned_def)

text \<open>Once the promise is settled and the timer is gone, nothing changes them.\<close>

definition finished :: "invocation \<Rightarrow> bool" where
  "finished iv \<longleftrightarrow> promise iv \<noteq> None \<and> timer iv = None"

lemma deliver_finished:
  "finished iv \<Longrightarrow>
     finished (deliver ev iv) \<and> promise (deliver ev iv) = promise iv
       \<and> killed (deliver ev iv) = killed iv"
  by (cases ev) (auto simp: finished_def resolve_def reject_def clearTimeout_def)

lemma run_finished:
  "finished iv \<Longrightarrow>
     finished (run evs iv) \<and> promise (run evs iv) = promise iv \<and> killed (run evs iv) = killed iv"
proof (induction evs arbitrary: iv)
  case Nil
  then show ?case by simp
next
  case (Cons tev evs)
  obtain t ev where tev: "tev = (t, ev)" by (cases tev)
  from Cons.prems have "fire_due t iv = iv"
    by (simp add: finished_def fire_due_cleared)
  with deliver_finished [OF Cons.prems, of ev] Cons.IH [of "deliver ev iv"] tev
  show ?case by simp
qed

lemma fire_due_settled: "promise iv \<noteq> None \<Longrightarrow> promise (fire_due t iv) = promise iv"
  by (auto simp: fire_due_def on_timeout_def reject_def split: option.splits)

lemma deliver_settled: "promise iv \<noteq> None \<Longrightarrow> promise (deliver ev iv) = promise iv"
  by (cases ev) (auto simp: resolve_def reject_def clearTimeout_def)

lemma run_settled: "promise iv \<noteq> None \<Longrightarrow> promise (run evs iv) = promise iv"
proof (induction evs arbitrary: iv)
  case Nil
  then show ?case by simp
next
  case (Cons tev evs)
  obtain t ev where tev: "tev = (t, ev)" by (cases tev)
  from Cons.prems have "promise (deliver ev (fire_due t iv)) = promise iv"
    by (simp add: deliver_settled fire_due_settled)
  with Cons.prems Cons.IH [of "deliver ev (fire_due t iv)"] tev show ?case by simp
qed

lemma settles_at_close:
  assumes data: "\<forall>(t', ev) \<in> set evs. is_data ev \<and> t' < timeout_ms" and early: "t < timeout_ms"
  shows "promise (run (evs @ (t, Close (Some 0)) # later) spawned)
       = Some (Resolved (cleanClaudeResponse (stdout_of evs)))
     \<and> (code \<noteq> Some 0 \<longrightarrow>
          promise (run (evs @ (t, Close code) # later) spawned)
            = Some (Rejected (js ''Claude Code failed: ''
                @ (if stderr_of evs \<noteq> [] then stderr_of evs
                   else if stdout_of evs \<noteq> [] then stdout_of evs
                   else js ''Unknown error''))))
     \<and> promise (run (evs @ (t, ChildError message) # later) spawned)
          = Some (Rejected (js ''Failed to start Claude Code: '' @ message))"
proof -
  let ?iv = "spawned\<lparr>stdout := stdout_of evs, stderr := stderr_of evs\<rparr>"
  have before: "run evs spawned = ?iv"
    by (rule run_data_spawned [OF data])
  have pending: "promise ?iv = None" "timer ?iv = Some timeout_ms"
    by (simp_all add: spawned_def)
  from early pending have quiet: "fire_due t ?iv = ?iv"
    by (simp add: fire_due_early)
  have then_run: "promise (run (evs @ (t, ev) # later) spawned) = promise (deliver ev ?iv)"
    if "promise (deliver ev ?iv) \<noteq> None" for ev
    using that by (simp add: run_append before quiet run_settled)
  have ok: "promise (deliver (Close (Some 0)) ?iv)
      = Some (Resolved (cleanClaudeResponse (stdout_of evs)))"
    by (simp add: resolve_def clearTimeout_def spawned_def)
  have failed: "promise (deliver (Close code) ?iv)
      = Some (Rejected (js ''Claude Code failed: ''
                @ (if stderr_of evs \<noteq> [] then stderr_of evs
                   else if stdout_of evs \<noteq> [] then stdout_of evs
                   else js ''Unknown error'')))"
    if "code \<noteq> Some 0"
    using that by (simp add: reject_def clearTimeout_def spawned_def or_else_def)
  have unstarted: "promise (deliver (ChildError message) ?iv)
      = Some (Rejected (js ''Failed to start Claude Code: '' @ message))"
    by (simp add: reject_def spawned_def)
  from then_run [of "Close (Some 0)"] ok then_run [of "Close code"] failed
    then_run [of "ChildError message"] unstarted
  show ?thesis by simp
qed

definition demo_events :: "(nat \<times> child_event) list" where
  "demo_events =
     [(5, StdoutData (js ''Hello'' @ [CR, LF])), (7, StderrData (js ''warn'')),
      (9, StdoutData (js ''World'' @ [LF]))]"

definition quiet_events :: "(nat \<times> child_event) list" where
  "quiet_events = [(5, StdoutData (js ''usage: claude''))]"

lemma demo_events_data:
  "\<forall>(t', ev) \<in> set demo_events. is_data ev \<and> t' < timeout_ms"
  "\<forall>(t', ev) \<in> set quiet_events. is_data ev \<and> t' < timeout_ms"
  by (simp_all add: demo_events_def quiet_events_def timeout_ms_def)

lemma demo_events_output:
  "stdout_of demo_events = js ''Hello'' @ [CR, LF] @ js ''World'' @ [LF]"
  "stderr_of demo_events = js ''warn''"
  "stdout_of quiet_events = js ''usage: claude''"
  "stderr_of quiet_events = []"
  by (simp_all add: demo_events_def quiet_events_def)

lemma demo_events_clean:
  "cleanClaudeResponse (js ''Hello'' @ [CR, LF] @ js ''World'' @ [LF]) = js ''Hello'' @ [LF] @ js ''World''"
  by (simp add: cleanClaudeResponse_def js_def ESC_def LF_def CR_def trim_def strip_cr_def
      is_csi_param_def is_ascii_letter_def is_line_terminator_def is_spinner_def
      is_white_space_def)

text \<open>
  C5, as the claim states it, fails: a process that exits with code 1 having written
  nothing to stderr and nothing to stdout is reported with the text \<open>Unknown error\<close>,
  not with its (empty) stdout.
\<close>

theorem exit_code_unknown_error:
  "stderr (run [(10, Close (Some 1))] spawned) = []
   \<and> stdout (run [(10, Close (Some 1))] spawned) = []
   \<and> promise (run [(10, Close (Some 1))] spawned)
       = Some (Rejected (js ''Claude Code failed: Unknown error''))
   \<and> promise (run [(10, Close (Some 1))] spawned)
       \<noteq> Some (Rejected (js ''Claude Code failed: ''
             @ or_else (stderr (run [(10, Close (Some 1))] spawned))
                 (stdout (run [(10, Close (Some 1))] spawned))))"
  by (simp add: spawned_def timeout_ms_def fire_due_def reject_def clearTimeout_def or_else_def
      js_def)

text \<open>
  C5, amended. For an invocation whose \<open>close\<close> or \<open>error\<close> event arrives before the
  timer fires, with only output before it: exit code 0 resolves the promise with the
  sanitized stdout; any other exit code (or none, after a signal) rejects it with
  \<open>Claude Code failed:\<close> followed by stderr, or by stdout when stderr is empty, or by
  \<open>Unknown error\<close> when both are empty; an \<open>error\<close> event rejects it with
  \<open>Failed to start Claude Code:\<close> and the message. Later events do not change the outcome.
\<close>

theorem exit_code_outcome:
  "(\<forall>(t', ev) \<in> set evs. is_data ev \<and> t' < timeout_ms) \<and> t < timeout_ms \<longrightarrow>
     promise (run (evs @ (t, Close (Some 0)) # later) spawned)
       = Some (Resolved (cleanClaudeResponse (stdout_of evs)))
     \<and> (code \<noteq> Some 0 \<longrightarrow>
          promise (run (evs @ (t, Close code) # later) spawned)
            = Some (Rejected (js ''Claude Code failed: ''
                @ (if stderr_of evs \<noteq> [] then stderr_of evs
                   else if stdout_of evs \<noteq> [] then stdout_of evs
                   else js ''Unknown error''))))
     \<and> promise (run (evs @ (t, ChildError message) # later) spawned)
          = Some (Rejected (js ''Failed to start Claude Code: '' @ message))"
  using settles_at_close [of evs t later code message] by blast

theorem exit_code_outcome_witness:
  "promise (run (demo_events @ (100, Close (Some 0)) # []) spawned)
     = Some (Resolved (js ''Hello'' @ [LF] @ js ''World''))
   \<and> promise (run (demo_events @ (100, Close (Some 1)) # []) spawned)
     = Some (Rejected (js ''Claude Code failed: warn''))
   \<and> promise (run (quiet_events @ (100, Close None) # []) spawned)
     = Some (Rejected (js ''Claude Code failed: usage: claude''))
   \<and> promise (run (demo_events @ (100, ChildError (js ''spawn /bin/sh ENOENT'')) # []) spawned)
     = Some (Rejected (js ''Failed to start Claude Code: spawn /bin/sh ENOENT''))"
proof -
  have early: "(100 :: nat) < timeout_ms" by (simp add: timeout_ms_def)
  have codes: "Some (1 :: int) \<noteq> Some 0" "(None :: int option) \<noteq> Some 0" by simp_all
  note loud = exit_code_outcome [of demo_events 100 "[]" "Some 1" "js ''spawn /bin/sh ENOENT''"]
  note quiet = exit_code_outcome [of quiet_events 100 "[]" None "[]"]
  from loud demo_events_data(1) early codes(1)
  have "promise (run (demo_events @ (100, Close (Some 0)) # []) spawned)
          = Some (Resolved (cleanClaudeResponse (stdout_of demo_events)))"
    and "promise (run (demo_events @ (100, Close (Some 1)) # []) spawned)
          = Some (Rejected (js ''Claude Code failed: ''
                @ (if stderr_of demo_events \<noteq> [] then stderr_of demo_events
                   else if stdout_of demo_events \<noteq> [] then stdout_of demo_events
                   else js ''Unknown error'')))"
    and "promise (run (demo_events @ (100, ChildError (js ''spawn /bin/sh ENOENT'')) # []) spawned)
          = Some (Rejected (js ''Failed to start Claude Code: '' @ js ''spawn /bin/sh ENOENT''))"
    by blast+
  moreover from quiet demo_events_data(2) early codes(2)
  have "promise (run (quiet_events @ (100, Close None) # []) spawned)
          = Some (Rejected (js ''Claude Code failed: ''
                @ (if stderr_of quiet_events \<noteq> [] then stderr_of quiet_events
                   else if stdout_of quiet_events \<noteq> [] then stdout_of quiet_events
                   else js ''Unknown error'')))"
    by blast
  ultimately show ?thesis
    unfolding demo_events_output demo_events_clean by (simp add: js_def)
qed

subsection \<open>The timeout\<close>

definition timeout_text :: jsstring where
  "timeout_text = js ''Claude Code timed out after 5 minutes''"

text \<open>With only data arriving, the invocation is either still pending with its timer
  set, or the timer has fired: the child is killed and the promise rejected.\<close>

definition pending :: "invocation \<Rightarrow> bool" where
  "pending iv \<longleftrightarrow> promise iv = None \<and> timer iv = Some timeout_ms \<and> \<not> killed iv"

definition timed_out :: "invocation \<Rightarrow> bool" where
  "timed_out iv \<longleftrightarrow>
     promise iv = Some (Rejected timeout_text) \<and> timer iv = None \<and> killed iv"

lemma spawned_pending: "pending spawned"
  by (simp add: pending_def spawned_def)

lemma fire_due_pending:
  "pending iv \<Longrightarrow>
     (if timeout_ms \<le> t then timed_out (fire_due t iv) else pending (fire_due t iv))"
  by (simp add: pending_def timed_out_def fire_due_def on_timeout_def reject_def timeout_text_def)

lemma fire_due_timed_out: "timed_out iv \<Longrightarrow> fire_due t iv = iv"
  by (simp add: timed_out_def fire_due_def)

lemma deliver_data:
  "is_data ev \<Longrightarrow>
     (pending iv \<longrightarrow> pending (deliver ev iv)) \<and> (timed_out iv \<longrightarrow> timed_out (deliver ev iv))"
  by (cases ev) (simp_all add: pending_def timed_out_def)

lemma run_data:
  "\<forall>(t, ev) \<in> set evs. is_data ev \<Longrightarrow> pending iv \<or> timed_out iv \<Longrightarrow>
     pending (run evs iv) \<or> timed_out (run evs iv)"
proof (induction evs arbitrary: iv)
  case Nil
  then show ?case by simp
next
  case (Cons tev evs)
  obtain t ev where tev: "tev = (t, ev)" by (cases tev)
  with Cons.prems(1) have data: "is_data ev" and rest: "\<forall>(t, ev) \<in> set evs. is_data ev"
    by auto
  from Cons.prems(2) have "pending (fire_due t iv) \<or> timed_out (fire_due t iv)"
    using fire_due_pending [of iv t] fire_due_timed_out [of iv t]
    by (auto split: if_splits)
  with deliver_data [OF data] have "pending (deliver ev (fire_due t iv)) \<or> timed_out (deliver ev (fire_due t iv))"
    by blast
  from Cons.IH [OF rest this] tev show ?case by simp
qed

lemma set_takeWhile_data:
  "\<forall>(t, ev) \<in> set evs. is_data ev \<Longrightarrow> \<forall>(t, ev) \<in> set (takeWhile P evs). is_data ev"
  by (auto dest: set_takeWhileD)

lemma never_exits:
  assumes "\<forall>(t, ev) \<in> set evs. is_data ev"
  shows "if timeout_ms \<le> T then timed_out (state_at T evs) else pending (state_at T evs)"
proof -
  let ?seen = "takeWhile (\<lambda>(t, ev). t \<le> T) evs"
  have data: "\<forall>(t, ev) \<in> set ?seen. is_data ev"
    by (rule set_takeWhile_data [OF assms])
  show ?thesis
  proof (cases "timeout_ms \<le> T")
    case True
    from run_data [OF data, of spawned] spawned_pending
    have "pending (run ?seen spawned) \<or> timed_out (run ?seen spawned)" by simp
    with True show ?thesis
      using fire_due_pending [of "run ?seen spawned" T] fire_due_timed_out [of "run ?seen spawned" T]
      by (auto simp: state_at_def)
  next
    case False
    have "\<forall>(t, ev) \<in> set ?seen. is_data ev \<and> t < timeout_ms"
    proof -
      have "t < timeout_ms" if "(t, ev) \<in> set ?seen" for t ev
        using set_takeWhileD [OF that] False by simp
      with data show ?thesis by auto
    qed
    from run_data_spawned [OF this] have "pending (run ?seen spawned)"
      by (simp add: pending_def spawned_def)
    with False show ?thesis
      using fire_due_pending [of "run ?seen spawned" T] by (simp add: state_at_def)
  qed
qed

lemma closes_in_time:
  assumes data: "\<forall>(t', ev) \<in> set evs. is_data ev \<and> t' \<le> t"
    and early: "t < timeout_ms" and seen: "t \<le> T"
  shows "finished (state_at T (evs @ (t, Close code) # later))
    \<and> \<not> killed (state_at T (evs @ (t, Close code) # later))
    \<and> promise (state_at T (evs @ (t, Close code) # later))
        = promise (run (evs @ [(t, Close code)]) spawned)"
proof -
  let ?P = "\<lambda>(t, ev). t \<le> T"
  let ?iv = "spawned\<lparr>stdout := stdout_of evs, stderr := stderr_of evs\<rparr>"
  from data seen have all: "\<forall>x \<in> set evs. ?P x" by auto
  have split: "takeWhile ?P (evs @ (t, Close code) # later)
      = evs @ (t, Close code) # takeWhile ?P later"
    using all seen by simp
  from data early have "\<forall>(t', ev) \<in> set evs. is_data ev \<and> t' < timeout_ms" by auto
  then have before: "run evs spawned = ?iv" by (rule run_data_spawned)
  from early have quiet: "fire_due t ?iv = ?iv"
    by (simp add: fire_due_early spawned_def)
  let ?closed = "deliver (Close code) ?iv"
  have fin: "finished ?closed" and alive: "\<not> killed ?closed"
    by (auto simp: finished_def resolve_def reject_def clearTimeout_def spawned_def)
  have at_close: "run (evs @ [(t, Close code)]) spawned = ?closed"
    by (simp add: run_append before quiet)
  have rest: "run (evs @ (t, Close code) # takeWhile ?P later) spawned
      = run (takeWhile ?P later) ?closed"
    by (simp add: run_append before quiet)
  from run_finished [OF fin, of "takeWhile ?P later"]
  have "finished (run (takeWhile ?P later) ?closed)"
    "promise (run (takeWhile ?P later) ?closed) = promise ?closed"
    "killed (run (takeWhile ?P later) ?closed) = killed ?closed"
    by simp_all
  with alive show ?thesis
    unfolding state_at_def split rest at_close
    by (simp add: finished_def fire_due_cleared)
qed

lemma after_await_calls:
  "filter (\<lambda>call. call = DeleteLock k) (fst (after_await outcome send_throws reply_throws k))
     = [DeleteLock k]
   \<and> last (fst (after_await outcome send_throws reply_throws k)) = DeleteLock k
   \<and> foldl perform pu (fst (after_await outcome send_throws reply_throws k)) = pu - {k}"
  by (cases outcome; cases send_throws)
     (simp_all add: after_await_def release_def)

text \<open>Whatever the child does, the timer is either still set for the deadline or gone
  with the promise settled; so at the deadline the promise is settled.\<close>

definition armed_or_settled :: "invocation \<Rightarrow> bool" where
  "armed_or_settled iv \<longleftrightarrow>
     timer iv = Some timeout_ms \<or> (timer iv = None \<and> promise iv \<noteq> None)"

lemma fire_due_armed: "armed_or_settled iv \<Longrightarrow> armed_or_settled (fire_due t iv)"
  by (cases "timer iv"; cases "promise iv")
     (auto simp: armed_or_settled_def fire_due_def on_timeout_def reject_def split: if_splits)

lemma deliver_armed: "armed_or_settled iv \<Longrightarrow> armed_or_settled (deliver ev iv)"
  by (cases ev) (auto simp: armed_or_settled_def resolve_def reject_def clearTimeout_def)

lemma run_armed: "armed_or_settled iv \<Longrightarrow> armed_or_settled (run evs iv)"
proof (induction evs arbitrary: iv)
  case Nil
  then show ?case by simp
next
  case (Cons tev evs)
  obtain t ev where tev: "tev = (t, ev)" by (cases tev)
  from Cons.prems have "armed_or_settled (deliver ev (fire_due t iv))"
    by (simp add: fire_due_armed deliver_armed)
  from Cons.IH [OF this] tev show ?case by simp
qed

lemma settled_by_deadline:
  assumes "timeout_ms \<le> T"
  shows "promise (state_at T evs) \<noteq> None"
proof -
  let ?iv = "run (takeWhile (\<lambda>(t, ev). t \<le> T) evs) spawned"
  have "armed_or_settled spawned"
    by (simp add: armed_or_settled_def spawned_def)
  then have "armed_or_settled ?iv" by (rule run_armed)
  with assms show ?thesis
    by (cases "promise ?iv")
       (auto simp: state_at_def armed_or_settled_def fire_due_def on_timeout_def reject_def)
qed

text \<open>
  C8. The timer is set for \<open>5 * 60 * 1000\<close> ms. When the child only produces output and
  never closes, the promise is pending before that time and from that time on it is
  rejected with \<open>Claude Code timed out after 5 minutes\<close>, the child having been sent
  \<open>SIGKILL\<close>. When the child closes before that time, the timer is cleared: whatever
  happens later, no kill is sent and the promise keeps the outcome of the \<open>close\<close>. Once
  the promise has settled, in whichever way, the handler deletes the lock key exactly
  once, as its last call, and the set of held keys is what it was before the request.
  Whatever the child does, the promise is settled at the deadline.
\<close>

theorem invocation_timeout:
  "timeout_ms = 300000
   \<and> ((\<forall>(t, ev) \<in> set evs. is_data ev) \<longrightarrow>
        (timeout_ms \<le> T \<longrightarrow>
           promise (state_at T evs) = Some (Rejected (js ''Claude Code timed out after 5 minutes''))
           \<and> killed (state_at T evs) \<and> timer (state_at T evs) = None)
        \<and> (T < timeout_ms \<longrightarrow> promise (state_at T evs) = None \<and> \<not> killed (state_at T evs)))
   \<and> ((\<forall>(t', ev) \<in> set evs'. is_data ev \<and> t' \<le> t) \<and> t < timeout_ms \<and> t \<le> T' \<longrightarrow>
        timer (state_at T' (evs' @ (t, Close code) # later)) = None
        \<and> \<not> killed (state_at T' (evs' @ (t, Close code) # later))
        \<and> promise (state_at T' (evs' @ (t, Close code) # later))
            = promise (run (evs' @ [(t, Close code)]) spawned))
   \<and> filter (\<lambda>call. call = DeleteLock k) (fst (after_await outcome send_throws reply_throws k))
        = [DeleteLock k]
   \<and> last (fst (after_await outcome send_throws reply_throws k)) = DeleteLock k
   \<and> (k \<notin> pu \<longrightarrow>
        foldl perform (snd (tryAcquire k pu)) (fst (after_await outcome send_throws reply_throws k)) = pu)
   \<and> fst (after_await (Rejected (js ''Claude Code timed out after 5 minutes'')) send_throws None k)
        = [ReplyError (error_reply (js ''Claude Code timed out after 5 minutes'')), StopTyping,
           DeleteLock k]
   \<and> (timeout_ms \<le> T \<longrightarrow> promise (state_at T anything) \<noteq> None)"
proof -
  have five_minutes: "timeout_ms = 300000"
    by (simp add: timeout_ms_def)
  have stuck: "(timeout_ms \<le> T \<longrightarrow>
           promise (state_at T evs) = Some (Rejected (js ''Claude Code timed out after 5 minutes''))
           \<and> killed (state_at T evs) \<and> timer (state_at T evs) = None)
        \<and> (T < timeout_ms \<longrightarrow> promise (state_at T evs) = None \<and> \<not> killed (state_at T evs))"
    if "\<forall>(t, ev) \<in> set evs. is_data ev"
    using never_exits [OF that, of T]
    by (auto simp: timed_out_def pending_def timeout_text_def split: if_splits)
  have closed: "timer (state_at T' (evs' @ (t, Close code) # later)) = None
        \<and> \<not> killed (state_at T' (evs' @ (t, Close code) # later))
        \<and> promise (state_at T' (evs' @ (t, Close code) # later))
            = promise (run (evs' @ [(t, Close code)]) spawned)"
    if "\<forall>(t', ev) \<in> set evs'. is_data ev \<and> t' \<le> t" "t < timeout_ms" "t \<le> T'"
    using closes_in_time [OF that, of code later] by (simp add: finished_def)
  have once: "filter (\<lambda>call. call = DeleteLock k) (fst (after_await outcome send_throws reply_throws k))
        = [DeleteLock k]"
    and at_end: "last (fst (after_await outcome send_throws reply_throws k)) = DeleteLock k"
    using after_await_calls [of k outcome send_throws reply_throws] by simp_all
  have restored: "foldl perform (snd (tryAcquire k pu)) (fst (after_await outcome send_throws reply_throws k)) = pu"
    if "k \<notin> pu"
    using that after_await_calls [of k outcome send_throws reply_throws "insert k pu"]
    by (simp add: tryAcquire_def)
  have on_timeout: "fst (after_await (Rejected (js ''Claude Code timed out after 5 minutes'')) send_throws None k)
        = [ReplyError (error_reply (js ''Claude Code timed out after 5 minutes'')), StopTyping,
           DeleteLock k]"
    by (simp add: after_await_def)
  from five_minutes stuck closed once at_end restored on_timeout
    settled_by_deadline [of T anything]
  show ?thesis by blast
qed

theorem invocation_timeout_witness:
  "promise (state_at 299999 demo_events) = None
   \<and> \<not> killed (state_at 299999 demo_events)
   \<and> promise (state_at 300000 demo_events)
       = Some (Rejected (js ''Claude Code timed out after 5 minutes''))
   \<and> killed (state_at 300000 demo_events)
   \<and> \<not> killed (state_at 400000 (demo_events @ (2000, Close (Some 0)) # []))
   \<and> promise (state_at 400000 (demo_events @ (2000, Close (Some 0)) # []))
       = Some (Resolved (js ''Hello'' @ [LF] @ js ''World''))
   \<and> ''42'' \<notin> ({} :: string set)
   \<and> foldl perform (snd (tryAcquire ''42'' {}))
        (fst (after_await (Rejected (js ''Claude Code timed out after 5 minutes'')) None None ''42'')) = {}
   \<and> promise (state_at 300000 [(300001, Close (Some 0))]) \<noteq> None"
proof -
  have data: "\<forall>(t, ev) \<in> set demo_events. is_data ev"
    using demo_events_data(1) by auto
  have before: "\<forall>(t', ev) \<in> set demo_events. is_data ev \<and> t' \<le> 2000"
    by (simp add: demo_events_def)
  have times: "timeout_ms \<le> 300000" "299999 < timeout_ms" "2000 < timeout_ms" "(2000 :: nat) \<le> 400000"
    by (simp_all add: timeout_ms_def)
  have free: "''42'' \<notin> ({} :: string set)" by simp
  note late = invocation_timeout [of demo_events 300000 demo_events 2000 400000 "Some 0" "[]"
      "''42''" "Rejected (js ''Claude Code timed out after 5 minutes'')" None None "{}"
      "[(300001, Close (Some 0))]"]
  note soon = invocation_timeout [of demo_events 299999 demo_events 2000 400000 "Some 0" "[]"
      "''42''" "Rejected (js ''Claude Code timed out after 5 minutes'')" None None "{}"]
  have closing: "promise (run (demo_events @ [(2000, Close (Some 0))]) spawned)
      = Some (Resolved (js ''Hello'' @ [LF] @ js ''World''))"
    using settles_at_close [OF demo_events_data(1) times(3), of "[]"]
    unfolding demo_events_output demo_events_clean by simp
  from late data before times free
  have "promise (state_at 300000 demo_events)
          = Some (Rejected (js ''Claude Code timed out after 5 minutes''))"
    and "killed (state_at 300000 demo_events)"
    and "\<not> killed (state_at 400000 (demo_events @ (2000, Close (Some 0)) # []))"
    and "promise (state_at 400000 (demo_events @ (2000, Close (Some 0)) # []))
          = promise (run (demo_events @ [(2000, Close (Some 0))]) spawned)"
    and "foldl perform (snd (tryAcquire ''42'' {}))
          (fst (after_await (Rejected (js ''Claude Code timed out after 5 minutes'')) None None ''42'')) = {}"
    and "promise (state_at 300000 [(300001, Close (Some 0))]) \<noteq> None"
    by blast+
  moreover from soon data times
  have "promise (state_at 299999 demo_events) = None" "\<not> killed (state_at 299999 demo_events)"
    by blast+
  ultimately show ?thesis using closing free by simp
qed

section \<open>Output sanitization\<close>

declare strip_ansi.simps(2) [simp del] strip_spinner_lines.simps(2) [simp del]
  collapse_newlines.simps(2) [simp del]

subsection \<open>Escape sequences\<close>

lemma letter_not_param: "is_ascii_letter c \<Longrightarrow> \<not> is_csi_param c"
  by (auto simp: is_ascii_letter_def is_csi_param_def word_le_nat_alt)

lemma match_ansi_csi:
  assumes "\<forall>c \<in> set ps. is_csi_param c" and "is_ascii_letter l"
  shows "match_ansi (ESC # 0x5B # ps @ l # rest) = Some rest"
proof -
  from assms have "dropWhile is_csi_param (ps @ l # rest) = l # rest"
    by (simp add: dropWhile_append3 letter_not_param)
  with assms(2) show ?thesis by simp
qed

lemma strip_ansi_csi:
  assumes "\<forall>c \<in> set ps. is_csi_param c" and "is_ascii_letter l"
  shows "strip_ansi (ESC # 0x5B # ps @ l # rest) = strip_ansi rest"
  unfolding strip_ansi.simps match_ansi_csi [OF assms] by simp

lemma match_ansi_other: "c \<noteq> ESC \<Longrightarrow> match_ansi (c # s) = None"
  by (cases s) simp_all

lemma strip_ansi_other: "c \<noteq> ESC \<Longrightarrow> strip_ansi (c # s) = c # strip_ansi s"
  by (simp add: strip_ansi.simps match_ansi_other)

subsection \<open>No carriage return survives\<close>

lemma set_strip_spinner_lines: "set (strip_spinner_lines bol s) \<subseteq> set s"
proof (induction bol s rule: strip_spinner_lines.induct)
  case (1 bol)
  then show ?case by simp
next
  case (2 bol c cs)
  show ?case
  proof (cases "bol \<and> is_spinner c")
    case True
    with 2(1) have "set (strip_spinner_lines False (dropWhile (\<lambda>x. \<not> is_line_terminator x) cs))
        \<subseteq> set (dropWhile (\<lambda>x. \<not> is_line_terminator x) cs)"
      by blast
    also have "\<dots> \<subseteq> set cs"
      by (auto dest: set_dropWhileD)
    finally show ?thesis using True
      by (auto simp: strip_spinner_lines.simps(2))
  next
    case False
    with 2(2) have "set (strip_spinner_lines (is_line_terminator c) cs) \<subseteq> set cs" by blast
    with False show ?thesis
      by (auto simp: strip_spinner_lines.simps(2))
  qed
qed

lemma collapse_run_step:
  "c = LF \<and> 3 \<le> length (takeWhile (\<lambda>x. x = LF) (c # cs)) \<Longrightarrow>
     collapse_newlines (c # cs) = LF # LF # collapse_newlines (dropWhile (\<lambda>x. x = LF) cs)"
  by (subst collapse_newlines.simps(2)) auto

lemma collapse_keep_step:
  "\<not> (c = LF \<and> 3 \<le> length (takeWhile (\<lambda>x. x = LF) (c # cs))) \<Longrightarrow>
     collapse_newlines (c # cs) = c # collapse_newlines cs"
  by (subst collapse_newlines.simps(2)) auto

lemma set_collapse_newlines: "set (collapse_newlines s) \<subseteq> set s"
proof (induction s rule: collapse_newlines.induct)
  case 1
  then show ?case by simp
next
  case (2 c cs)
  show ?case
  proof (cases "c = LF \<and> 3 \<le> length (takeWhile (\<lambda>x. x = LF) (c # cs))")
    case True
    with 2(1) have "set (collapse_newlines (dropWhile (\<lambda>x. x = LF) cs))
        \<subseteq> set (dropWhile (\<lambda>x. x = LF) cs)"
      by blast
    also have "\<dots> \<subseteq> set cs"
      by (auto dest: set_dropWhileD)
    finally have "set (collapse_newlines (dropWhile (\<lambda>x. x = LF) cs)) \<subseteq> set cs" .
    moreover from True have "collapse_newlines (c # cs)
        = LF # LF # collapse_newlines (dropWhile (\<lambda>x. x = LF) cs)"
      by (rule collapse_run_step)
    ultimately show ?thesis using True by auto
  next
    case False
    with 2(2) have "set (collapse_newlines cs) \<subseteq> set cs" by blast
    moreover from False have "collapse_newlines (c # cs) = c # collapse_newlines cs"
      by (rule collapse_keep_step)
    ultimately show ?thesis by auto
  qed
qed

lemma set_trim: "set (trim s) \<subseteq> set s"
  by (auto simp: trim_def dest!: set_dropWhileD)

lemma no_cr: "CR \<notin> set (cleanClaudeResponse s)"
proof -
  have "set (cleanClaudeResponse s) \<subseteq> set (strip_cr (strip_ansi s))"
    unfolding cleanClaudeResponse_def
    using set_trim set_collapse_newlines set_strip_spinner_lines by (meson subset_trans)
  then show ?thesis by (auto simp: strip_cr_def)
qed

subsection \<open>Spinner lines\<close>

lemma spinner_not_terminator: "is_spinner c \<Longrightarrow> \<not> is_line_terminator c"
  by (auto simp: is_spinner_def is_line_terminator_def)

lemma LF_terminator: "is_line_terminator LF"
  by (simp add: is_line_terminator_def LF_def)

lemma spinner_line:
  assumes "is_spinner g" and "\<forall>c \<in> set body. \<not> is_line_terminator c"
  shows "strip_spinner_lines True (g # body @ LF # rest) = LF # strip_spinner_lines True rest"
    and "strip_spinner_lines True (g # body) = []"
proof -
  from assms(2) have "dropWhile (\<lambda>x. \<not> is_line_terminator x) (body @ LF # rest) = LF # rest"
    by (simp add: dropWhile_append3 LF_terminator)
  moreover have "\<not> is_spinner LF"
    using spinner_not_terminator LF_terminator by blast
  ultimately show "strip_spinner_lines True (g # body @ LF # rest) = LF # strip_spinner_lines True rest"
    using assms(1) by (simp add: strip_spinner_lines.simps LF_terminator)
  from assms(2) have empty: "dropWhile (\<lambda>x. \<not> is_line_terminator x) body = []"
    by simp
  show "strip_spinner_lines True (g # body) = []"
    by (simp only: strip_spinner_lines.simps assms(1) empty simp_thms if_True)
qed

lemma other_line:
  "\<not> (bol \<and> is_spinner c) \<Longrightarrow>
     strip_spinner_lines bol (c # s) = c # strip_spinner_lines (is_line_terminator c) s"
  by (auto simp: strip_spinner_lines.simps(2))

subsection \<open>Runs of newlines\<close>

lemma takeWhile_head: "s = [] \<or> \<not> P (hd s) \<Longrightarrow> takeWhile P s = []"
  by (cases s) auto

lemma dropWhile_head: "s = [] \<or> \<not> P (hd s) \<Longrightarrow> dropWhile P s = s"
  by (cases s) auto

lemma takeWhile_replicate_same:
  "takeWhile (\<lambda>x. x = c) (replicate n c @ rest) = replicate n c @ takeWhile (\<lambda>x. x = c) rest"
  by (induction n) simp_all

lemma dropWhile_replicate_same:
  "dropWhile (\<lambda>x. x = c) (replicate n c @ rest) = dropWhile (\<lambda>x. x = c) rest"
  by (induction n) simp_all

lemma collapse_run:
  assumes "3 \<le> n" and "rest = [] \<or> hd rest \<noteq> LF"
  shows "collapse_newlines (replicate n LF @ rest) = LF # LF # collapse_newlines rest"
proof -
  from assms(1) obtain m where n: "n = Suc m" by (cases n) auto
  have run: "takeWhile (\<lambda>x. x = LF) (replicate n LF @ rest) = replicate n LF"
    using takeWhile_head [of rest "\<lambda>x. x = LF"] assms(2) by (simp add: takeWhile_replicate_same)
  have after: "dropWhile (\<lambda>x. x = LF) (replicate m LF @ rest) = rest"
    using dropWhile_head [of rest "\<lambda>x. x = LF"] assms(2) by (simp add: dropWhile_replicate_same)
  have "collapse_newlines (LF # replicate m LF @ rest)
      = LF # LF # collapse_newlines (dropWhile (\<lambda>x. x = LF) (replicate m LF @ rest))"
  proof (rule collapse_run_step)
    from run assms(1) show "LF = LF \<and> 3 \<le> length (takeWhile (\<lambda>x. x = LF) (LF # replicate m LF @ rest))"
      unfolding n by simp
  qed
  then show ?thesis unfolding n after by simp
qed

lemma collapse_other: "c \<noteq> LF \<Longrightarrow> collapse_newlines (c # s) = c # collapse_newlines s"
  by (rule collapse_keep_step) simp

definition lead :: "jsstring \<Rightarrow> nat" where
  "lead s = length (takeWhile (\<lambda>x. x = LF) s)"

lemma lead_simps:
  "lead [] = 0" "lead (LF # s) = Suc (lead s)" "c \<noteq> LF \<Longrightarrow> lead (c # s) = 0"
  by (simp_all add: lead_def)

lemma lead_dropWhile: "lead (dropWhile (\<lambda>x. x = LF) s) = 0"
  by (induction s) (simp_all add: lead_def)

lemma lead_collapse: "lead (collapse_newlines s) = min (lead s) 2"
proof (induction s rule: collapse_newlines.induct)
  case 1
  then show ?case by (simp add: lead_simps)
next
  case (2 c cs)
  show ?case
  proof (cases "c = LF \<and> 3 \<le> length (takeWhile (\<lambda>x. x = LF) (c # cs))")
    case True
    from 2(1) [OF True] have "lead (collapse_newlines (dropWhile (\<lambda>x. x = LF) cs)) = 0"
      by (simp add: lead_dropWhile)
    moreover from True have "3 \<le> lead (c # cs)" by (auto simp: lead_def)
    ultimately show ?thesis
      unfolding collapse_run_step [OF True] by (simp add: lead_simps)
  next
    case False
    from 2(2) [OF False] have ih: "lead (collapse_newlines cs) = min (lead cs) 2" .
    show ?thesis
    proof (cases "c = LF")
      case True
      with False have "lead cs < 2" by (auto simp: lead_def)
      with ih True show ?thesis
        unfolding collapse_keep_step [OF False] by (simp add: lead_simps)
    next
      case False
      then show ?thesis by (simp add: collapse_other lead_simps)
    qed
  qed
qed

lemma no_triple_collapse: "collapse_newlines s \<noteq> a @ LF # LF # LF # b"
proof (induction s arbitrary: a rule: collapse_newlines.induct)
  case 1
  then show ?case by simp
next
  case (2 c cs)
  show ?case
  proof (cases "c = LF \<and> 3 \<le> length (takeWhile (\<lambda>x. x = LF) (c # cs))")
    case True
    let ?r = "dropWhile (\<lambda>x. x = LF) cs"
    have out: "collapse_newlines (c # cs) = LF # LF # collapse_newlines ?r"
      by (rule collapse_run_step [OF True])
    have quiet: "lead (collapse_newlines ?r) = 0"
      by (simp add: lead_collapse lead_dropWhile)
    show ?thesis
    proof
      assume eq: "collapse_newlines (c # cs) = a @ LF # LF # LF # b"
      show False
      proof (cases a)
        case Nil
        with eq out have "collapse_newlines ?r = LF # b" by simp
        with quiet show False by (simp add: lead_simps)
      next
        case (Cons x a')
        show False
        proof (cases a')
          case Nil
          with Cons eq out have "collapse_newlines ?r = LF # LF # b" by simp
          with quiet show False by (simp add: lead_simps)
        next
          case (Cons y a'')
          with \<open>a = x # a'\<close> eq out have "collapse_newlines ?r = a'' @ LF # LF # LF # b" by simp
          with 2(1) [OF True] show False by blast
        qed
      qed
    qed
  next
    case False
    have out: "collapse_newlines (c # cs) = c # collapse_newlines cs"
      by (rule collapse_keep_step [OF False])
    show ?thesis
    proof
      assume eq: "collapse_newlines (c # cs) = a @ LF # LF # LF # b"
      show False
      proof (cases a)
        case Nil
        with eq out have c: "c = LF" and rest: "collapse_newlines cs = LF # LF # b" by simp_all
        from rest have "2 \<le> lead (collapse_newlines cs)" by (simp add: lead_simps)
        then have "2 \<le> lead cs" by (simp add: lead_collapse)
        with c False show False by (auto simp: lead_def)
      next
        case (Cons x a')
        with eq out have "collapse_newlines cs = a' @ LF # LF # LF # b" by simp
        with 2(2) [OF False] show False by blast
      qed
    qed
  qed
qed

subsection \<open>Trimming\<close>

lemma trim_infix: "\<exists>pre post. s = pre @ trim s @ post"
proof -
  let ?d = "dropWhile is_white_space s"
  have "s = takeWhile is_white_space s @ ?d" by simp
  moreover have "?d = trim s @ rev (takeWhile is_white_space (rev ?d))"
    unfolding trim_def
    by (metis rev_append rev_rev_ident takeWhile_dropWhile_id)
  ultimately show ?thesis by metis
qed

lemma no_triple_clean: "cleanClaudeResponse s \<noteq> a @ LF # LF # LF # b"
proof
  assume eq: "cleanClaudeResponse s = a @ LF # LF # LF # b"
  let ?c = "collapse_newlines (strip_spinner_lines True (strip_cr (strip_ansi s)))"
  from trim_infix [of ?c] obtain pre post where "?c = pre @ trim ?c @ post" by blast
  with eq have "?c = (pre @ a) @ LF # LF # LF # (b @ post)"
    by (simp add: cleanClaudeResponse_def)
  with no_triple_collapse show False by blast
qed

lemma trim_ends:
  "trim s \<noteq> [] \<Longrightarrow> \<not> is_white_space (hd (trim s)) \<and> \<not> is_white_space (last (trim s))"
proof -
  assume ne: "trim s \<noteq> []"
  let ?d = "dropWhile is_white_space s"
  let ?e = "dropWhile is_white_space (rev ?d)"
  from ne have e: "?e \<noteq> []" by (simp add: trim_def)
  then have "\<not> is_white_space (hd ?e)" by (rule hd_dropWhile)
  with e have last: "\<not> is_white_space (last (trim s))"
    by (simp add: trim_def last_rev)
  have d: "?d \<noteq> []"
  proof
    assume "?d = []"
    then have "?e = []" by (simp only: rev.simps dropWhile.simps)
    with e show False ..
  qed
  then have first: "\<not> is_white_space (hd ?d)" by (rule hd_dropWhile)
  have "?d = trim s @ rev (takeWhile is_white_space (rev ?d))"
    unfolding trim_def
    by (metis rev_append rev_rev_ident takeWhile_dropWhile_id)
  with ne have "hd ?d = hd (trim s)" by (metis hd_append2)
  with first last show ?thesis by simp
qed

subsection \<open>The sanitization as the specification words it\<close>

text \<open>
  For comparison with \<open>cleanClaudeResponse\<close>: the five steps read literally. A line is
  what stands between newlines; a line that is not empty and holds nothing but spinner
  glyphs is emptied (its line break stays, the reading closest to the code); a run of
  three or more empty lines becomes one empty line. The first, second and last step are
  taken as the code has them.
\<close>

fun lines_of :: "jsstring \<Rightarrow> jsstring list" where
  "lines_of [] = [[]]"
| "lines_of (c # cs) =
     (if c = LF then [] # lines_of cs
      else (case lines_of cs of [] \<Rightarrow> [[c]] | l # ls \<Rightarrow> (c # l) # ls))"

fun unlines :: "jsstring list \<Rightarrow> jsstring" where
  "unlines [] = []"
| "unlines [l] = l"
| "unlines (l # ls) = l @ LF # unlines ls"

definition glyph_line :: "jsstring \<Rightarrow> bool" where
  "glyph_line l \<longleftrightarrow> l \<noteq> [] \<and> list_all is_spinner l"

function collapse_blank_lines :: "jsstring list \<Rightarrow> jsstring list" where
  "collapse_blank_lines [] = []"
| "collapse_blank_lines (l # ls) =
     (if l = [] \<and> 3 \<le> length (takeWhile (\<lambda>x. x = []) (l # ls))
      then [] # collapse_blank_lines (dropWhile (\<lambda>x. x = []) ls)
      else l # collapse_blank_lines ls)"
  by pat_completeness auto
termination
  by (relation "measure length") (auto simp: length_dropWhile_le less_Suc_eq_le)

definition claimed_sanitize :: "jsstring \<Rightarrow> jsstring" where
  "claimed_sanitize response =
     trim (unlines (collapse_blank_lines
       (map (\<lambda>l. if glyph_line l then [] else l) (lines_of (strip_cr (strip_ansi response))))))"

definition sample_output :: jsstring where
  "sample_output =
     js ''  Hello'' @ [ESC] @ js ''[2A'' @ [CR, LF]
       @ [0x280B, 0x2819, CR, LF]
       @ js ''middle'' @ [LF]
       @ [LF, LF, LF, LF, LF]
       @ js ''World '' @ [LF]"

lemmas sanitize_eval =
  cleanClaudeResponse_def claimed_sanitize_def js_def ESC_def LF_def CR_def trim_def strip_cr_def
  is_csi_param_def is_ascii_letter_def is_line_terminator_def is_spinner_def is_white_space_def
  glyph_line_def strip_ansi.simps strip_spinner_lines.simps collapse_newlines.simps

lemma sample_clean:
  "cleanClaudeResponse sample_output = js ''Hello'' @ [LF, LF] @ js ''middle'' @ [LF, LF] @ js ''World''"
  by (simp add: sample_output_def sanitize_eval)

lemma sample_claimed:
  "claimed_sanitize sample_output = js ''Hello'' @ [LF, LF] @ js ''middle'' @ [LF, LF] @ js ''World''"
  by (simp add: sample_output_def sanitize_eval)

text \<open>
  C6, as the claim states it, fails. Two blank lines (three newlines) between two words
  are fewer than the three blank lines of the claim, yet the code collapses them to one;
  and a line that begins with a spinner glyph and goes on with other text is not a line of
  glyphs only, yet the code removes all of it.
\<close>

theorem sanitize_differs_from_claim:
  "cleanClaudeResponse (js ''a'' @ [LF, LF, LF] @ js ''b'') = js ''a'' @ [LF, LF] @ js ''b''
   \<and> claimed_sanitize (js ''a'' @ [LF, LF, LF] @ js ''b'') = js ''a'' @ [LF, LF, LF] @ js ''b''
   \<and> cleanClaudeResponse (js ''Done'' @ [LF, 0x280B] @ js '' Thinking'') = js ''Done''
   \<and> claimed_sanitize (js ''Done'' @ [LF, 0x280B] @ js '' Thinking'')
       = js ''Done'' @ [LF, 0x280B] @ js '' Thinking''
   \<and> cleanClaudeResponse (js ''a'' @ [LF, LF, LF] @ js ''b'')
       \<noteq> claimed_sanitize (js ''a'' @ [LF, LF, LF] @ js ''b'')
   \<and> cleanClaudeResponse (js ''Done'' @ [LF, 0x280B] @ js '' Thinking'')
       \<noteq> claimed_sanitize (js ''Done'' @ [LF, 0x280B] @ js '' Thinking'')"
  by (simp add: sanitize_eval)

text \<open>
  C6, amended. \<open>cleanClaudeResponse\<close> applies, in this order: removal of the escape
  sequences of the form ESC, \<open>[\<close>, digits and semicolons, one letter (every other code
  unit that is not ESC is kept); removal of every carriage return; emptying of every line
  that begins with a spinner glyph, whatever follows on the line (the line break stays);
  replacement of three or more consecutive newlines (two or more blank lines) by two (one
  blank line); \<open>trim\<close>. The result holds no carriage return, never three newlines in a
  row, and neither starts nor ends with white space. The sample input, with a cursor-up
  sequence, carriage returns, a line of two spinner glyphs and five blank lines, yields
  the text with the sequence gone, the spinner line emptied and one blank line where the
  five were.
\<close>

theorem sanitize_pipeline:
  "cleanClaudeResponse s
     = trim (collapse_newlines (strip_spinner_lines True (strip_cr (strip_ansi s))))
   \<and> ((\<forall>c \<in> set ps. is_csi_param c) \<and> is_ascii_letter l \<longrightarrow>
        strip_ansi (ESC # 0x5B # ps @ l # rest) = strip_ansi rest)
   \<and> (c \<noteq> ESC \<longrightarrow> strip_ansi (c # rest) = c # strip_ansi rest)
   \<and> strip_cr s = filter (\<lambda>c. c \<noteq> CR) s
   \<and> CR \<notin> set (cleanClaudeResponse s)
   \<and> (is_spinner g \<and> (\<forall>c \<in> set body. \<not> is_line_terminator c) \<longrightarrow>
        strip_spinner_lines True (g # body @ LF # rest) = LF # strip_spinner_lines True rest
        \<and> strip_spinner_lines True (g # body) = [])
   \<and> (\<not> (bol \<and> is_spinner c) \<longrightarrow>
        strip_spinner_lines bol (c # rest) = c # strip_spinner_lines (is_line_terminator c) rest)
   \<and> (3 \<le> n \<and> (rest = [] \<or> hd rest \<noteq> LF) \<longrightarrow>
        collapse_newlines (replicate n LF @ rest) = LF # LF # collapse_newlines rest)
   \<and> cleanClaudeResponse s \<noteq> a @ LF # LF # LF # b
   \<and> (cleanClaudeResponse s \<noteq> [] \<longrightarrow>
        \<not> is_white_space (hd (cleanClaudeResponse s))
        \<and> \<not> is_white_space (last (cleanClaudeResponse s)))
   \<and> cleanClaudeResponse sample_output
        = js ''Hello'' @ [LF, LF] @ js ''middle'' @ [LF, LF] @ js ''World''"
proof -
  have order: "cleanClaudeResponse s
     = trim (collapse_newlines (strip_spinner_lines True (strip_cr (strip_ansi s))))"
    by (simp add: cleanClaudeResponse_def)
  have ends: "\<not> is_white_space (hd (cleanClaudeResponse s))
        \<and> \<not> is_white_space (last (cleanClaudeResponse s))"
    if "cleanClaudeResponse s \<noteq> []"
    using that trim_ends unfolding cleanClaudeResponse_def by blast
  have cr: "strip_cr s = filter (\<lambda>c. c \<noteq> CR) s"
    by (simp add: strip_cr_def)
  from order strip_ansi_csi [of ps l rest] strip_ansi_other [of c rest] cr no_cr [of s]
    spinner_line(1) [of g body rest] spinner_line(2) [of g body] other_line [of bol c rest] collapse_run [of n rest]
    no_triple_clean [of s a b] ends sample_clean
  show ?thesis by blast
qed

theorem sanitize_pipeline_witness:
  "is_csi_param 0x32 \<and> is_ascii_letter 0x41
   \<and> strip_ansi (ESC # 0x5B # [0x32] @ 0x41 # js ''x'') = strip_ansi (js ''x'')
   \<and> (0x48 :: code_unit) \<noteq> ESC
   \<and> is_spinner 0x280B \<and> \<not> is_line_terminator 0x2819
   \<and> strip_spinner_lines True (0x280B # [0x2819] @ LF # js ''x'')
       = LF # strip_spinner_lines True (js ''x'')
   \<and> (3 :: nat) \<le> 5 \<and> hd (js ''x'') \<noteq> LF
   \<and> collapse_newlines (replicate 5 LF @ js ''x'') = LF # LF # collapse_newlines (js ''x'')
   \<and> cleanClaudeResponse sample_output \<noteq> []
   \<and> \<not> is_white_space (hd (cleanClaudeResponse sample_output))
   \<and> \<not> is_white_space (last (cleanClaudeResponse sample_output))
   \<and> CR \<notin> set (cleanClaudeResponse sample_output)
   \<and> cleanClaudeResponse sample_output
       = js ''Hello'' @ [LF, LF] @ js ''middle'' @ [LF, LF] @ js ''World''"
proof -
  have params: "\<forall>c \<in> set [0x32 :: code_unit]. is_csi_param c" "is_csi_param 0x32"
    by (simp_all add: is_csi_param_def)
  have letter: "is_ascii_letter 0x41"
    by (simp add: is_ascii_letter_def)
  have other: "(0x48 :: code_unit) \<noteq> ESC" "\<not> (True \<and> is_spinner (0x48 :: code_unit))"
    by (simp_all add: ESC_def is_spinner_def)
  have glyph: "is_spinner 0x280B"
    by (simp add: is_spinner_def)
  have body: "\<forall>c \<in> set [0x2819 :: code_unit]. \<not> is_line_terminator c" "\<not> is_line_terminator 0x2819"
    by (simp_all add: is_line_terminator_def)
  have run: "(3 :: nat) \<le> 5" "js ''x'' = [] \<or> hd (js ''x'') \<noteq> LF" "hd (js ''x'') \<noteq> LF"
    by (simp_all add: js_def LF_def)
  have nonempty: "cleanClaudeResponse sample_output \<noteq> []"
    unfolding sample_clean by (simp add: js_def)
  note inst = sanitize_pipeline [of sample_output "[0x32]" "0x41" "js ''x''" "0x48" "0x280B"
      "[0x2819]" True 5 "[]" "[]"]
  from inst params letter other glyph body run nonempty show ?thesis
    by blast
qed

end
